theory Spec2Isabelle
  imports Main "HOL-Library.AList" "HOL-Library.Char_ord" "HOL-Library.List_Lexorder"
begin

text \<open>
  A model of the resource library of \<open>research_toolkit\<close>: the value objects and the
  \<open>Resource\<close> entity (domain), the JSONL-backed keyword index and the filesystem store
  (infrastructure), and the ingest and reindex use cases (application). Every function
  of the source is a function here, under its own name where the name is free.
  A function that can raise returns \<open>error + 'a\<close>, with \<open>Inl\<close> for the exception; a
  method that changes the store or the index takes the state and returns the new one.
\<close>

section \<open>Python strings\<close>

text \<open>
  A Python \<open>str\<close> is modelled as a \<open>string\<close> whose characters are the code points
  below 256. \<open>is_space\<close> lists the code points below 256 that \<open>str.isspace\<close> accepts,
  which are the ones \<open>str.strip()\<close> removes; \<open>lower_char\<close> is \<open>str.lower\<close> on that
  range (ASCII and Latin-1 capital letters).
\<close>

definition is_space :: "char \<Rightarrow> bool" where
  "is_space c = (c \<in> set [CHR 0x09, CHR 0x0A, CHR 0x0B, CHR 0x0C, CHR 0x0D,
     CHR 0x1C, CHR 0x1D, CHR 0x1E, CHR 0x1F, CHR 0x20, CHR 0x85, CHR 0xA0])"

definition strip :: "string \<Rightarrow> string" where
  "strip s = rev (dropWhile is_space (rev (dropWhile is_space s)))"

definition strip_chars :: "string \<Rightarrow> string \<Rightarrow> string" where
  "strip_chars cs s =
     rev (dropWhile (\<lambda>c. c \<in> set cs) (rev (dropWhile (\<lambda>c. c \<in> set cs) s)))"

definition upper_letters :: "string" where
  "upper_letters = ''ABCDEFGHIJKLMNOPQRSTUVWXYZ'' @
     [CHR 0xC0, CHR 0xC1, CHR 0xC2, CHR 0xC3, CHR 0xC4, CHR 0xC5, CHR 0xC6, CHR 0xC7,
      CHR 0xC8, CHR 0xC9, CHR 0xCA, CHR 0xCB, CHR 0xCC, CHR 0xCD, CHR 0xCE, CHR 0xCF,
      CHR 0xD0, CHR 0xD1, CHR 0xD2, CHR 0xD3, CHR 0xD4, CHR 0xD5, CHR 0xD6,
      CHR 0xD8, CHR 0xD9, CHR 0xDA, CHR 0xDB, CHR 0xDC, CHR 0xDD, CHR 0xDE]"

definition lower_letters :: "string" where
  "lower_letters = ''abcdefghijklmnopqrstuvwxyz'' @
     [CHR 0xE0, CHR 0xE1, CHR 0xE2, CHR 0xE3, CHR 0xE4, CHR 0xE5, CHR 0xE6, CHR 0xE7,
      CHR 0xE8, CHR 0xE9, CHR 0xEA, CHR 0xEB, CHR 0xEC, CHR 0xED, CHR 0xEE, CHR 0xEF,
      CHR 0xF0, CHR 0xF1, CHR 0xF2, CHR 0xF3, CHR 0xF4, CHR 0xF5, CHR 0xF6,
      CHR 0xF8, CHR 0xF9, CHR 0xFA, CHR 0xFB, CHR 0xFC, CHR 0xFD, CHR 0xFE]"

definition lower_char :: "char \<Rightarrow> char" where
  "lower_char c = (case map_of (zip upper_letters lower_letters) c of
                     None \<Rightarrow> c | Some d \<Rightarrow> d)"

definition lower :: "string \<Rightarrow> string" where
  "lower s = map lower_char s"

definition startswith :: "string \<Rightarrow> string \<Rightarrow> bool" where
  "startswith s p = (take (length p) s = p)"

text \<open>\<open>s.split(sep)\<close> for a one-character separator: never the empty list.\<close>

fun split_on :: "char \<Rightarrow> string \<Rightarrow> string list" where
  "split_on sep [] = [[]]"
| "split_on sep (c # cs) =
     (if c = sep then [] # split_on sep cs
      else (case split_on sep cs of
              [] \<Rightarrow> [[c]]
            | l # ls \<Rightarrow> (c # l) # ls))"

section \<open>Values, errors and the standard library\<close>

text \<open>
  Python values as \<open>json.loads\<close> produces them and as the untyped fields of a dataclass
  hold them. Numbers with a fraction or an exponent are left out.
\<close>

datatype pyval =
    PNone
  | PBool bool
  | PInt int
  | PStr string
  | PList "pyval list"
  | PDict "(string \<times> pyval) list"

text \<open>
  The exceptions the modelled code raises; \<open>ValueError\<close> carries its message.
  \<open>JSONDecodeError\<close> is a subclass of \<open>ValueError\<close>.
\<close>

datatype error =
    ValueError string
  | JSONDecodeError
  | KeyError string
  | TypeError
  | AttributeError
  | FileNotFoundError

text \<open>
  Functions of Python's standard library that the code calls and the repository does not
  define. They are parameters of the model: \<open>sha256_hexdigest s\<close> is
  \<open>hashlib.sha256(s.encode()).hexdigest()\<close>, \<open>json_loads\<close> returns \<open>None\<close> where
  \<open>json.loads\<close> raises \<open>JSONDecodeError\<close>, \<open>json_dumps\<close> is \<open>json.dumps(v)\<close> and
  \<open>json_dumps_indent\<close> is the text \<open>json.dump(v, f, indent=2)\<close> writes, \<open>fromisoformat\<close>
  returns \<open>None\<close> where \<open>datetime.fromisoformat\<close> raises \<open>ValueError\<close>, and
  \<open>format_value v\<close> is the text an f-string gives a value that is not a \<open>str\<close>.
  The type \<open>'dt\<close> stands for \<open>datetime\<close>.
\<close>

record 'dt pyenv =
  sha256_hexdigest :: "string \<Rightarrow> string"
  json_loads :: "string \<Rightarrow> pyval option"
  json_dumps :: "pyval \<Rightarrow> string"
  json_dumps_indent :: "pyval \<Rightarrow> string"
  fromisoformat :: "string \<Rightarrow> 'dt option"
  isoformat :: "'dt \<Rightarrow> string"
  format_value :: "pyval \<Rightarrow> string"

section \<open>Value objects (domain/value\_objects.py)\<close>

definition is_hex_char :: "char \<Rightarrow> bool" where
  "is_hex_char c = (c \<in> set ''abcdef0123456789'')"

text \<open>\<open>re.fullmatch(r"[a-f0-9]{8,16}", value)\<close>\<close>

definition matches_id_pattern :: "string \<Rightarrow> bool" where
  "matches_id_pattern v = (8 \<le> length v \<and> length v \<le> 16 \<and> list_all is_hex_char v)"

text \<open>
  \<open>ResourceId(value)\<close>: the dataclass with its \<open>__post_init__\<close> check. A value that is
  not a \<open>str\<close> makes \<open>re.fullmatch\<close> raise \<open>TypeError\<close>.
\<close>

definition ResourceId :: "pyval \<Rightarrow> error + string" where
  "ResourceId v =
     (case v of
        PStr s \<Rightarrow> (if matches_id_pattern s then Inr s else Inl (ValueError ''Invalid ResourceId''))
      | _ \<Rightarrow> Inl TypeError)"

definition from_url :: "('dt, 'x) pyenv_scheme \<Rightarrow> string \<Rightarrow> error + string" where
  "from_url env u = ResourceId (PStr (take 12 (sha256_hexdigest env u)))"

definition from_content :: "('dt, 'x) pyenv_scheme \<Rightarrow> string \<Rightarrow> error + string" where
  "from_content env content = ResourceId (PStr (take 12 (sha256_hexdigest env content)))"

text \<open>
  \<open>Url(value)\<close>: a value that is not a \<open>str\<close> has no \<open>startswith\<close>
  (\<open>AttributeError\<close>).
\<close>

definition Url :: "pyval \<Rightarrow> error + string" where
  "Url v =
     (case v of
        PStr s \<Rightarrow>
          (if startswith s ''http://'' \<or> startswith s ''https://'' \<or> startswith s ''file://''
           then Inr s else Inl (ValueError ''Invalid URL''))
      | _ \<Rightarrow> Inl AttributeError)"

text \<open>\<open>Timestamp.from_iso\<close>: \<open>datetime.fromisoformat\<close> wants a \<open>str\<close>.\<close>

definition from_iso :: "('dt, 'x) pyenv_scheme \<Rightarrow> pyval \<Rightarrow> error + 'dt" where
  "from_iso env v =
     (case v of
        PStr s \<Rightarrow> (case fromisoformat env s of
                     None \<Rightarrow> Inl (ValueError ''Invalid isoformat string'')
                   | Some d \<Rightarrow> Inr d)
      | _ \<Rightarrow> Inl TypeError)"

definition ContentHash_of :: "('dt, 'x) pyenv_scheme \<Rightarrow> string \<Rightarrow> pyval" where
  "ContentHash_of env text = PStr (sha256_hexdigest env text)"

section \<open>Resource (domain/entities.py)\<close>

text \<open>
  \<open>resource_id\<close> and \<open>url\<close> hold the string of a validated \<open>ResourceId\<close> and \<open>Url\<close>,
  \<open>captured_at\<close> the \<open>datetime\<close> of the \<open>Timestamp\<close>. The other fields are not checked
  by the dataclass and hold whatever value they were given; \<open>content_hash\<close> is the
  \<open>value\<close> of the \<open>ContentHash\<close>.
\<close>

record 'dt resource =
  resource_id :: string
  title :: pyval
  url :: string
  captured_at :: 'dt
  content_hash :: pyval
  tags :: pyval
  snippet_count :: pyval

text \<open>
  \<open>Resource.to_dict\<close>. \<open>str(self.content_hash)\<close> raises \<open>TypeError\<close> when the wrapped
  value is not a \<open>str\<close>.
\<close>

definition to_dict :: "('dt, 'x) pyenv_scheme \<Rightarrow> 'dt resource \<Rightarrow> error + pyval" where
  "to_dict env r =
     (case content_hash r of
        PStr h \<Rightarrow>
          Inr (PDict [(''id'', PStr (resource_id r)),
                      (''title'', title r),
                      (''url'', PStr (url r)),
                      (''captured_at'', PStr (isoformat env (captured_at r))),
                      (''content_hash'', PStr h),
                      (''tags'', tags r),
                      (''snippet_count'', snippet_count r)])
      | _ \<Rightarrow> Inl TypeError)"

text \<open>\<open>d[key]\<close>: \<open>KeyError\<close> on a dict without the key, \<open>TypeError\<close> on any other value.\<close>

definition subscript :: "pyval \<Rightarrow> string \<Rightarrow> error + pyval" where
  "subscript d k =
     (case d of
        PDict kvs \<Rightarrow> (case map_of kvs k of None \<Rightarrow> Inl (KeyError k) | Some v \<Rightarrow> Inr v)
      | _ \<Rightarrow> Inl TypeError)"

text \<open>\<open>d.get(key, default)\<close>: only a dict has \<open>get\<close>.\<close>

definition dict_get :: "pyval \<Rightarrow> string \<Rightarrow> pyval \<Rightarrow> error + pyval" where
  "dict_get d k dflt =
     (case d of
        PDict kvs \<Rightarrow> (case map_of kvs k of None \<Rightarrow> Inr dflt | Some v \<Rightarrow> Inr v)
      | _ \<Rightarrow> Inl AttributeError)"

text \<open>Sequencing of a computation that may raise.\<close>

definition and_then :: "error + 'a \<Rightarrow> ('a \<Rightarrow> error + 'b) \<Rightarrow> error + 'b" where
  "and_then m f = (case m of Inl e \<Rightarrow> Inl e | Inr x \<Rightarrow> f x)"

text \<open>\<open>Resource.from_dict\<close>: the keyword arguments are evaluated in the order written.\<close>

definition from_dict :: "('dt, 'x) pyenv_scheme \<Rightarrow> pyval \<Rightarrow> error + 'dt resource" where
  "from_dict env d =
     and_then (and_then (subscript d ''id'') ResourceId) (\<lambda>i.
     and_then (subscript d ''title'') (\<lambda>t.
     and_then (and_then (subscript d ''url'') Url) (\<lambda>u.
     and_then (and_then (subscript d ''captured_at'') (from_iso env)) (\<lambda>c.
     and_then (subscript d ''content_hash'') (\<lambda>h.
     and_then (dict_get d ''tags'' (PList [])) (\<lambda>ts.
     and_then (dict_get d ''snippet_count'' (PInt 0)) (\<lambda>n.
     Inr \<lparr>resource_id = i, title = t, url = u, captured_at = c,
          content_hash = h, tags = ts, snippet_count = n\<rparr>)))))))"

section \<open>Keyword index (infrastructure/jsonl\_indexer.py)\<close>

definition is_token_char :: "char \<Rightarrow> bool" where
  "is_token_char c = (c \<in> set ''abcdefghijklmnopqrstuvwxyz0123456789'')"

text \<open>
  \<open>re.findall(r"[a-z0-9]+", s)\<close>: the maximal runs of token characters, left to right;
  \<open>cur\<close> is the run being read, reversed.
\<close>

fun findall_runs :: "string \<Rightarrow> string \<Rightarrow> string list" where
  "findall_runs cur [] = (if cur = [] then [] else [rev cur])"
| "findall_runs cur (c # cs) =
     (if is_token_char c then findall_runs (c # cur) cs
      else (if cur = [] then [] else [rev cur]) @ findall_runs [] cs)"

definition stops :: "string list" where
  "stops = [''the'', ''a'', ''an'', ''is'', ''are'', ''was'', ''were'', ''in'', ''on'', ''at'',
            ''to'', ''for'', ''of'', ''and'', ''or'', ''it'']"

definition tokenize :: "string \<Rightarrow> string list" where
  "tokenize text =
     filter (\<lambda>w. w \<notin> set stops \<and> length w > 1) (findall_runs [] (lower text))"

text \<open>
  A \<open>dict\<close> keeps its keys in insertion order, so a \<open>Counter\<close> and the index are
  association lists: \<open>AList.update\<close> overwrites a key in place and appends a new one.
  \<open>counter_get\<close> is \<open>Counter.__getitem__\<close>, zero for a missing key.
\<close>

type_synonym counter = "(string \<times> int) list"

definition counter_get :: "counter \<Rightarrow> string \<Rightarrow> int" where
  "counter_get c k = (case map_of c k of None \<Rightarrow> 0 | Some n \<Rightarrow> n)"

definition counter_add :: "string \<Rightarrow> int \<Rightarrow> counter \<Rightarrow> counter" where
  "counter_add k n c = AList.update k (counter_get c k + n) c"

record 'dt indexer =
  index :: "(string \<times> counter) list"
  resources :: "(string \<times> 'dt resource) list"

definition empty_indexer :: "'dt indexer" where
  "empty_indexer = \<lparr>index = [], resources = []\<rparr>"

text \<open>
  The body of the loop \<open>for term in terms\<close> of \<open>index_resource\<close> and \<open>_load\<close>.
\<close>

definition index_term :: "string \<Rightarrow> (string \<times> counter) list \<Rightarrow> string \<Rightarrow> (string \<times> counter) list" where
  "index_term rid idx term =
     (let idx' = (if term \<notin> fst ` set idx then AList.update term [] idx else idx);
          c = (case map_of idx' term of None \<Rightarrow> [] | Some c \<Rightarrow> c)
      in AList.update term (counter_add rid 1 c) idx')"

text \<open>The text of \<open>f"{resource.title} {content}"\<close>.\<close>

definition title_text :: "('dt, 'x) pyenv_scheme \<Rightarrow> pyval \<Rightarrow> string" where
  "title_text env t = (case t of PStr s \<Rightarrow> s | _ \<Rightarrow> format_value env t)"

definition indexed_text :: "('dt, 'x) pyenv_scheme \<Rightarrow> 'dt resource \<Rightarrow> string \<Rightarrow> string" where
  "indexed_text env r content = title_text env (title r) @ '' '' @ content"

definition index_resource ::
  "('dt, 'x) pyenv_scheme \<Rightarrow> 'dt indexer \<Rightarrow> 'dt resource \<Rightarrow> string \<Rightarrow> 'dt indexer" where
  "index_resource env ix r content =
     (let rid = resource_id r;
          res' = AList.update rid r (resources ix);
          terms = tokenize (indexed_text env r content)
      in \<lparr>index = foldl (index_term rid) (index ix) terms, resources = res'\<rparr>)"

text \<open>
  \<open>Counter.most_common(n)\<close> of the standard library: the entries by descending count,
  entries of equal count in the order first met, cut to \<open>n\<close> (none for \<open>n \<le> 0\<close>).
\<close>

definition most_common :: "int \<Rightarrow> counter \<Rightarrow> (string \<times> int) list" where
  "most_common n c = take (nat n) (sort_key (\<lambda>p. - snd p) c)"

text \<open>The inner loop \<open>for rid, count in self._index[term].items(): scores[rid] += count\<close>.\<close>

definition add_posting :: "counter \<Rightarrow> counter \<Rightarrow> counter" where
  "add_posting scores posting = foldl (\<lambda>s p. counter_add (fst p) (snd p) s) scores posting"

definition score_term :: "(string \<times> counter) list \<Rightarrow> counter \<Rightarrow> string \<Rightarrow> counter" where
  "score_term idx scores term =
     (case map_of idx term of None \<Rightarrow> scores | Some posting \<Rightarrow> add_posting scores posting)"

text \<open>A list comprehension whose element expression may raise.\<close>

fun map_result :: "('a \<Rightarrow> error + 'b) \<Rightarrow> 'a list \<Rightarrow> error + 'b list" where
  "map_result f [] = Inr []"
| "map_result f (x # xs) =
     and_then (f x) (\<lambda>y. and_then (map_result f xs) (\<lambda>ys. Inr (y # ys)))"

definition search_local :: "'dt indexer \<Rightarrow> string \<Rightarrow> int \<Rightarrow> error + string list" where
  "search_local ix query top_k =
     (let terms = tokenize query;
          scores = foldl (score_term (index ix)) [] terms;
          top = most_common top_k scores
      in map_result (\<lambda>p. ResourceId (PStr (fst p))) top)"

definition remove :: "'dt indexer \<Rightarrow> string \<Rightarrow> 'dt indexer" where
  "remove ix rid =
     \<lparr>index = map (\<lambda>tc. (fst tc, AList.delete rid (snd tc))) (index ix),
      resources = AList.delete rid (resources ix)\<rparr>"

text \<open>
  What the claims say about the index, in its own terms: the occurrence count the index
  holds for a term and a resource id, and the sum of those counts over the tokens of a
  query.
\<close>

definition count_of :: "(string \<times> counter) list \<Rightarrow> string \<Rightarrow> string \<Rightarrow> int" where
  "count_of idx term rid = (case map_of idx term of None \<Rightarrow> 0 | Some c \<Rightarrow> counter_get c rid)"

definition summed_count :: "'dt indexer \<Rightarrow> string \<Rightarrow> string \<Rightarrow> int" where
  "summed_count ix query rid = sum_list (map (\<lambda>t. count_of (index ix) t rid) (tokenize query))"

text \<open>
  The invariant of the index: in every posting list the resource ids are distinct keys
  that match the id pattern, and every count is positive. It holds of the empty index
  and is kept by \<open>index_resource\<close> (for a resource with a valid id) and \<open>remove\<close>.
\<close>

definition posting_ok :: "counter \<Rightarrow> bool" where
  "posting_ok p =
     (distinct (map fst p) \<and> (\<forall>e \<in> set p. matches_id_pattern (fst e) \<and> 0 < snd e))"

definition index_ok :: "'dt indexer \<Rightarrow> bool" where
  "index_ok ix = (\<forall>tc \<in> set (index ix). posting_ok (snd tc))"

text \<open>The resource ids that the posting lists of the given terms mention.\<close>

definition term_keys :: "(string \<times> counter) list \<Rightarrow> string list \<Rightarrow> string set" where
  "term_keys idx terms =
     {rid. \<exists>t \<in> set terms. \<exists>p. map_of idx t = Some p \<and> rid \<in> fst ` set p}"

section \<open>Title extraction (IngestResource.\_extract\_title, Reindex.\_extract\_title)\<close>

text \<open>
  The two use cases carry the same function, statement for statement; one model serves
  both. Each loop of the source is one recursive function over the lines it walks.
\<close>

text \<open>
  \<open>stripped.split(":", 1)[1]\<close> under the guard \<open>stripped.lower().startswith("title:")\<close>,
  which makes the sixth character of \<open>stripped\<close> its first colon: the text after it.
\<close>

definition after_title_colon :: "string \<Rightarrow> string" where
  "after_title_colon stripped = drop 1 (dropWhile (\<lambda>c. c \<noteq> CHR '':'') stripped)"

text \<open>
  The first loop over \<open>lines[1:]\<close>: the \<open>title:\<close> field before the closing delimiter.
\<close>

fun frontmatter_title :: "string \<Rightarrow> string list \<Rightarrow> string option" where
  "frontmatter_title delimiter [] = None"
| "frontmatter_title delimiter (raw # rest) =
     (let stripped = strip raw in
      if stripped = delimiter then None
      else if startswith (lower stripped) ''title:'' then
        (let val = strip_chars [CHR 0x27, CHR 0x22] (strip (after_title_colon stripped)) in
         if val \<noteq> [] then Some val else frontmatter_title delimiter rest)
      else frontmatter_title delimiter rest)"

text \<open>
  The second loop over \<open>lines[1:]\<close>: the lines after the closing delimiter, \<open>None\<close> when
  no line closes the block (\<open>body_start\<close> stays 0).
\<close>

fun after_frontmatter :: "string \<Rightarrow> string list \<Rightarrow> string list option" where
  "after_frontmatter delimiter [] = None"
| "after_frontmatter delimiter (raw # rest) =
     (if strip raw = delimiter then Some rest else after_frontmatter delimiter rest)"

text \<open>The loop over \<open>lines[body_start:]\<close>.\<close>

fun scan_body :: "string list \<Rightarrow> string option" where
  "scan_body [] = None"
| "scan_body (raw # rest) =
     (let stripped = strip raw in
      if startswith stripped ''# '' then Some (strip (drop 2 stripped))
      else if stripped \<noteq> [] \<and> \<not> (startswith stripped ''---'' \<or> startswith stripped ''+++'')
              \<and> length stripped < 200
      then Some stripped
      else scan_body rest)"

text \<open>The last loop, over all lines.\<close>

fun scan_lines :: "string list \<Rightarrow> string option" where
  "scan_lines [] = None"
| "scan_lines (line # rest) =
     (let stripped = strip line in
      if startswith stripped ''# '' then Some (strip (drop 2 stripped))
      else if stripped \<noteq> [] \<and> length stripped < 200 then Some stripped
      else scan_lines rest)"

text \<open>The \<open>if\<close> block on a frontmatter delimiter in the first line.\<close>

definition frontmatter_block :: "string list \<Rightarrow> string option" where
  "frontmatter_block lines =
     (case lines of
        [] \<Rightarrow> None
      | first # rest \<Rightarrow>
          (let delimiter = strip first in
           if delimiter = ''---'' \<or> delimiter = ''+++'' then
             (case frontmatter_title delimiter rest of
                Some val \<Rightarrow> Some val
              | None \<Rightarrow>
                  scan_body (case after_frontmatter delimiter rest of
                               None \<Rightarrow> lines
                             | Some body \<Rightarrow> body))
           else None))"

text \<open>
  The title the content gives, \<open>None\<close> where the source falls through to
  \<open>return fallback\<close>.
\<close>

definition title_from_content :: "string \<Rightarrow> string option" where
  "title_from_content content =
     (let lines = split_on CHR 0x0A content in
      case frontmatter_block lines of
        Some t \<Rightarrow> Some t
      | None \<Rightarrow> scan_lines lines)"

definition extract_title :: "string \<Rightarrow> pyval \<Rightarrow> pyval" where
  "extract_title content fallback =
     (case title_from_content content of Some t \<Rightarrow> PStr t | None \<Rightarrow> fallback)"

section \<open>Resource store (infrastructure/filesystem\_store.py)\<close>

text \<open>
  The files under \<open><base>\<close>: \<open>resources/<name>/\<close> with its four files (\<open>None\<close>: the
  file is absent), and \<open>library.jsonl\<close> as its list of lines. A text file holds a string.
\<close>

record resdir =
  meta_json :: "string option"
  content_md :: "string option"
  snippets_json :: "string option"
  snapshot_html :: "string option"

record store =
  resource_dirs :: "(string \<times> resdir) list option"
  library_jsonl :: "string list option"

definition empty_resdir :: resdir where
  "empty_resdir = \<lparr>meta_json = None, content_md = None, snippets_json = None, snapshot_html = None\<rparr>"

definition lookup_dir :: "store \<Rightarrow> string \<Rightarrow> resdir option" where
  "lookup_dir st name = (case resource_dirs st of None \<Rightarrow> None | Some ds \<Rightarrow> map_of ds name)"

definition resource_exists :: "store \<Rightarrow> string \<Rightarrow> bool" where
  "resource_exists st rid =
     (case lookup_dir st rid of None \<Rightarrow> False | Some d \<Rightarrow> meta_json d \<noteq> None)"

text \<open>\<open>Resource.from_dict(json.load(f))\<close> on the text of a file.\<close>

definition parse_resource :: "('dt, 'x) pyenv_scheme \<Rightarrow> string \<Rightarrow> error + 'dt resource" where
  "parse_resource env text =
     (case json_loads env text of
        None \<Rightarrow> Inl JSONDecodeError
      | Some data \<Rightarrow> from_dict env data)"

definition load_resource ::
  "('dt, 'x) pyenv_scheme \<Rightarrow> store \<Rightarrow> string \<Rightarrow> error + 'dt resource option" where
  "load_resource env st rid =
     (case lookup_dir st rid of
        None \<Rightarrow> Inr None
      | Some d \<Rightarrow>
          (case meta_json d of
             None \<Rightarrow> Inr None
           | Some text \<Rightarrow> and_then (parse_resource env text) (\<lambda>r. Inr (Some r))))"

definition load_content :: "store \<Rightarrow> string \<Rightarrow> string option" where
  "load_content st rid = (case lookup_dir st rid of None \<Rightarrow> None | Some d \<Rightarrow> content_md d)"

definition update_dir :: "store \<Rightarrow> string \<Rightarrow> (resdir \<Rightarrow> resdir) \<Rightarrow> store" where
  "update_dir st name f =
     (let ds = (case resource_dirs st of None \<Rightarrow> [] | Some ds \<Rightarrow> ds);
          d = (case map_of ds name of None \<Rightarrow> empty_resdir | Some d \<Rightarrow> d)
      in st\<lparr>resource_dirs := Some (AList.update name (f d) ds)\<rparr>)"

definition append_to_library :: "store \<Rightarrow> string \<Rightarrow> store" where
  "append_to_library st line =
     st\<lparr>library_jsonl := Some ((case library_jsonl st of None \<Rightarrow> [] | Some ls \<Rightarrow> ls) @ [line])\<rparr>"

text \<open>
  \<open>save_resource\<close>. Opening \<open>meta.json\<close> for writing empties it before \<open>to_dict\<close> runs,
  so an exception of \<open>to_dict\<close> leaves the empty file behind. The result is the
  exception raised, if any, and the files afterwards.
\<close>

definition save_resource ::
  "('dt, 'x) pyenv_scheme \<Rightarrow> store \<Rightarrow> 'dt resource \<Rightarrow> string \<Rightarrow> string option
     \<Rightarrow> (error + unit) \<times> store" where
  "save_resource env st r content raw_html =
     (let rid = resource_id r in
      case to_dict env r of
        Inl e \<Rightarrow> (Inl e, update_dir st rid (\<lambda>d. d\<lparr>meta_json := Some []\<rparr>))
      | Inr d \<Rightarrow>
          (let st1 = update_dir st rid (\<lambda>x. x\<lparr>meta_json := Some (json_dumps_indent env d)\<rparr>);
               st2 = update_dir st1 rid (\<lambda>x. x\<lparr>content_md := Some content\<rparr>);
               st3 = update_dir st2 rid (\<lambda>x.
                       if snippets_json x = None
                       then x\<lparr>snippets_json := Some (json_dumps env (PList []))\<rparr> else x);
               st4 = (case raw_html of
                        None \<Rightarrow> st3
                      | Some h \<Rightarrow> if h = [] then st3
                                  else update_dir st3 rid (\<lambda>x. x\<lparr>snapshot_html := Some h\<rparr>))
           in (Inr (), append_to_library st4 (json_dumps env d))))"

section \<open>Index construction (JsonlIndexer.\_\_init\_\_ and \_load)\<close>

text \<open>The \<open>except (json.JSONDecodeError, KeyError, ValueError)\<close> clause of \<open>_load\<close>.\<close>

fun caught_by_load :: "error \<Rightarrow> bool" where
  "caught_by_load (ValueError m) = True"
| "caught_by_load JSONDecodeError = True"
| "caught_by_load (KeyError k) = True"
| "caught_by_load TypeError = False"
| "caught_by_load AttributeError = False"
| "caught_by_load FileNotFoundError = False"

text \<open>
  The body of \<open>for line in f\<close>. The state is \<open>seen_ids\<close> with the index being built;
  \<open>Inl\<close> is an exception the \<open>except\<close> clause does not catch, which ends construction.
\<close>

definition load_line ::
  "('dt, 'x) pyenv_scheme \<Rightarrow> store \<Rightarrow> string list \<times> 'dt indexer \<Rightarrow> string
     \<Rightarrow> error + string list \<times> 'dt indexer" where
  "load_line env st acc raw =
     (let line = strip raw in
      if line = [] then Inr acc
      else
        (case parse_resource env line of
           Inl e \<Rightarrow> if caught_by_load e then Inr acc else Inl e
         | Inr r \<Rightarrow>
             (let rid = resource_id r; seen_ids = fst acc; ix = snd acc in
              if rid \<in> set seen_ids then Inr acc
              else
                (let content = (case load_content st rid of None \<Rightarrow> [] | Some c \<Rightarrow> take 10000 c);
                     terms = tokenize (indexed_text env r content)
                 in Inr (rid # seen_ids,
                         \<lparr>index = foldl (index_term rid) (index ix) terms,
                          resources = AList.update rid r (resources ix)\<rparr>)))))"

fun load_lines ::
  "('dt, 'x) pyenv_scheme \<Rightarrow> store \<Rightarrow> string list \<times> 'dt indexer \<Rightarrow> string list
     \<Rightarrow> error + string list \<times> 'dt indexer" where
  "load_lines env st acc [] = Inr acc"
| "load_lines env st acc (raw # rest) =
     and_then (load_line env st acc raw) (\<lambda>acc'. load_lines env st acc' rest)"

text \<open>\<open>JsonlIndexer(library_path)\<close>: the empty index, then \<open>_load\<close>.\<close>

definition load :: "('dt, 'x) pyenv_scheme \<Rightarrow> store \<Rightarrow> error + 'dt indexer" where
  "load env st =
     (case library_jsonl st of
        None \<Rightarrow> Inr empty_indexer
      | Some lines \<Rightarrow>
          and_then (load_lines env st ([], empty_indexer) lines) (\<lambda>acc. Inr (snd acc)))"

section \<open>Ingest (application/use\_cases/ingest\_resource.py)\<close>

text \<open>
  The collaborators of the use case that reach outside the program: the snapshotter's
  \<open>capture\<close>, the clock's \<open>now\<close>, \<open>os.path.abspath\<close> and the local file system
  (\<open>read_file p\<close> is \<open>None\<close> when \<open>os.path.exists(p)\<close> is false).
\<close>

record 'dt ports =
  capture :: "string \<Rightarrow> string option \<times> string option"
  now :: 'dt
  abspath :: "string \<Rightarrow> string"
  read_file :: "string \<Rightarrow> string option"

text \<open>The store and the indexer the use cases share.\<close>

record 'dt library =
  the_store :: store
  the_indexer :: "'dt indexer"

record 'dt ingest_response =
  resource :: "'dt resource"
  already_existed :: bool

text \<open>\<open>os.path.basename\<close>: the text after the last slash.\<close>

definition basename :: "string \<Rightarrow> string" where
  "basename p = rev (takeWhile (\<lambda>c. c \<noteq> CHR ''/'') (rev p))"

text \<open>
  The existence short-circuit: \<open>resource_exists\<close>, then \<open>load_resource\<close>, which gives a
  resource whenever the metadata file exists.
\<close>

definition existing_resource ::
  "('dt, 'x) pyenv_scheme \<Rightarrow> store \<Rightarrow> string \<Rightarrow> error + 'dt resource option" where
  "existing_resource env st rid =
     (if resource_exists st rid then load_resource env st rid else Inr None)"

text \<open>The part of \<open>execute\<close> after the branch on the kind of source.\<close>

definition ingest_store ::
  "('dt, 'x) pyenv_scheme \<Rightarrow> ('dt, 'y) ports_scheme \<Rightarrow> 'dt library \<Rightarrow> string \<Rightarrow> pyval
     \<Rightarrow> string \<Rightarrow> string \<Rightarrow> string option \<Rightarrow> (error + 'dt ingest_response) \<times> 'dt library" where
  "ingest_store env io lib rid title' url' content raw_html =
     (if strip content = [] then
        (Inl (ValueError ''No content could be extracted from the source.''), lib)
      else
        (let r = \<lparr>resource_id = rid, title = title', url = url', captured_at = now io,
                  content_hash = ContentHash_of env content, tags = PList [],
                  snippet_count = PInt 0\<rparr>
         in case save_resource env (the_store lib) r content raw_html of
              (Inl e, st') \<Rightarrow> (Inl e, lib\<lparr>the_store := st'\<rparr>)
            | (Inr u, st') \<Rightarrow>
                (Inr \<lparr>resource = r, already_existed = False\<rparr>,
                 \<lparr>the_store = st',
                  the_indexer = index_resource env (the_indexer lib) r content\<rparr>)))"

definition ingest_execute ::
  "('dt, 'x) pyenv_scheme \<Rightarrow> ('dt, 'y) ports_scheme \<Rightarrow> 'dt library \<Rightarrow> string
     \<Rightarrow> (error + 'dt ingest_response) \<times> 'dt library" where
  "ingest_execute env io lib source =
     (if startswith source ''http://'' \<or> startswith source ''https://'' then
        (case from_url env source of
           Inl e \<Rightarrow> (Inl e, lib)
         | Inr rid \<Rightarrow>
             (case existing_resource env (the_store lib) rid of
                Inl e \<Rightarrow> (Inl e, lib)
              | Inr (Some existing) \<Rightarrow> (Inr \<lparr>resource = existing, already_existed = True\<rparr>, lib)
              | Inr None \<Rightarrow>
                  (let text = fst (capture io source);
                       raw_html = snd (capture io source);
                       content = (case text of None \<Rightarrow> [] | Some t \<Rightarrow> t)
                   in case Url (PStr source) of
                        Inl e \<Rightarrow> (Inl e, lib)
                      | Inr u \<Rightarrow>
                          ingest_store env io lib rid (extract_title content (PStr source))
                            u content raw_html)))
      else
        (case read_file io source of
           None \<Rightarrow> (Inl FileNotFoundError, lib)
         | Some content \<Rightarrow>
             (case from_content env content of
                Inl e \<Rightarrow> (Inl e, lib)
              | Inr rid \<Rightarrow>
                  (case existing_resource env (the_store lib) rid of
                     Inl e \<Rightarrow> (Inl e, lib)
                   | Inr (Some existing) \<Rightarrow>
                       (Inr \<lparr>resource = existing, already_existed = True\<rparr>, lib)
                   | Inr None \<Rightarrow>
                       (case Url (PStr (''file://'' @ abspath io source)) of
                          Inl e \<Rightarrow> (Inl e, lib)
                        | Inr u \<Rightarrow>
                            ingest_store env io lib rid (PStr (basename source))
                              u content None)))))"

section \<open>Reindex (application/use\_cases/reindex.py)\<close>

text \<open>
  The \<open>Logger\<close> port (application/ports.py) and its implementation \<open>ConsoleLogger\<close>
  (infrastructure/logger.py) define \<open>info\<close>, \<open>warn\<close>, \<open>error\<close> and \<open>debug\<close>. What they
  print is not part of the modelled state. A call of any other method raises
  \<open>AttributeError\<close>.
\<close>

definition logger_methods :: "string list" where
  "logger_methods = [''info'', ''warn'', ''error'', ''debug'']"

definition log_call :: "string \<Rightarrow> error + unit" where
  "log_call method = (if method \<in> set logger_methods then Inr () else Inl AttributeError)"

record reindex_result =
  total :: int
  titles_fixed :: int
  errors :: "(string \<times> error) list"

definition new_result :: reindex_result where
  "new_result = \<lparr>total = 0, titles_fixed = 0, errors = []\<rparr>"

text \<open>
  The \<open>Resource(...)\<close> that \<open>execute\<close> builds when the title changed: the fields of
  the loaded resource with the new title; \<open>snippet_count\<close> is not passed and takes its
  default.
\<close>

definition retitled :: "'dt resource \<Rightarrow> pyval \<Rightarrow> 'dt resource" where
  "retitled r new_title =
     \<lparr>resource_id = resource_id r, title = new_title, url = url r,
      captured_at = captured_at r, content_hash = content_hash r,
      tags = tags r, snippet_count = PInt 0\<rparr>"

text \<open>
  The text of \<open>meta.json\<close> in the directory \<open>name\<close> (\<open>None\<close>: not a file), and the
  text of its \<open>content.md\<close> (empty when it is not a file).
\<close>

definition meta_of :: "store \<Rightarrow> string \<Rightarrow> string option" where
  "meta_of st name = (case lookup_dir st name of None \<Rightarrow> None | Some d \<Rightarrow> meta_json d)"

definition content_of :: "store \<Rightarrow> string \<Rightarrow> string" where
  "content_of st name = (case load_content st name of None \<Rightarrow> [] | Some c \<Rightarrow> c)"

text \<open>
  The \<open>try\<close> block for the directory \<open>name\<close>, whose \<open>meta.json\<close> holds \<open>meta_text\<close>:
  the resource, its content and whether the title was fixed, or the exception raised,
  with the files afterwards.
\<close>

definition reindex_try ::
  "('dt, 'x) pyenv_scheme \<Rightarrow> store \<Rightarrow> string \<Rightarrow> string
     \<Rightarrow> (error + 'dt resource \<times> string \<times> bool) \<times> store" where
  "reindex_try env st name meta_text =
     (case parse_resource env meta_text of
        Inl e \<Rightarrow> (Inl e, st)
      | Inr r \<Rightarrow>
          (let content = content_of st name;
               new_title = extract_title content (title r)
           in if new_title \<noteq> title r then
                (let r' = retitled r new_title
                 in case to_dict env r' of
                      Inl e \<Rightarrow> (Inl e, update_dir st name (\<lambda>d. d\<lparr>meta_json := Some []\<rparr>))
                    | Inr d \<Rightarrow>
                        (let st' = update_dir st name
                                     (\<lambda>x. x\<lparr>meta_json := Some (json_dumps_indent env d)\<rparr>)
                         in case log_call ''info'' of
                              Inl e \<Rightarrow> (Inl e, st')
                            | Inr u \<Rightarrow> (Inr (r', content, True), st')))
              else (Inr (r, content, False), st)))"

text \<open>
  The loop \<open>for rid_dir in sorted(os.listdir(resources_dir))\<close>. The \<open>except\<close> clause
  records the error and then calls \<open>self._log.warning\<close>.
\<close>

fun reindex_walk ::
  "('dt, 'x) pyenv_scheme \<Rightarrow> store \<Rightarrow> reindex_result \<Rightarrow> ('dt resource \<times> string) list
     \<Rightarrow> string list
     \<Rightarrow> (error + reindex_result \<times> ('dt resource \<times> string) list) \<times> store" where
  "reindex_walk env st res acc [] = (Inr (res, acc), st)"
| "reindex_walk env st res acc (name # names) =
     (case meta_of st name of
        None \<Rightarrow> reindex_walk env st res acc names
      | Some meta_text \<Rightarrow>
          (let res1 = res\<lparr>total := total res + 1\<rparr> in
           case reindex_try env st name meta_text of
             (Inr (r, content, fixed), st') \<Rightarrow>
               reindex_walk env st'
                 (if fixed then res1\<lparr>titles_fixed := titles_fixed res1 + 1\<rparr> else res1)
                 (acc @ [(r, content)]) names
           | (Inl e, st') \<Rightarrow>
               (case log_call ''warning'' of
                  Inl e' \<Rightarrow> (Inl e', st')
                | Inr u \<Rightarrow>
                    reindex_walk env st' (res1\<lparr>errors := errors res1 @ [(name, e)]\<rparr>)
                      acc names)))"

text \<open>
  Rewriting \<open>library.jsonl\<close>: the file is emptied, then one line per resource is
  written; \<open>to_dict\<close> may raise, leaving the lines written so far.
\<close>

fun write_ledger ::
  "('dt, 'x) pyenv_scheme \<Rightarrow> string list \<Rightarrow> ('dt resource \<times> string) list
     \<Rightarrow> (error + unit) \<times> string list" where
  "write_ledger env written [] = (Inr (), written)"
| "write_ledger env written (rc # rest) =
     (case to_dict env (fst rc) of
        Inl e \<Rightarrow> (Inl e, written)
      | Inr d \<Rightarrow> write_ledger env (written @ [json_dumps env d]) rest)"

definition rebuild_index ::
  "('dt, 'x) pyenv_scheme \<Rightarrow> ('dt resource \<times> string) list \<Rightarrow> 'dt indexer" where
  "rebuild_index env rcs =
     foldl (\<lambda>ix rc. index_resource env ix (fst rc) (take 10000 (snd rc))) empty_indexer rcs"

definition reindex_execute ::
  "('dt, 'x) pyenv_scheme \<Rightarrow> 'dt library \<Rightarrow> (error + reindex_result) \<times> 'dt library" where
  "reindex_execute env lib =
     (case resource_dirs (the_store lib) of
        None \<Rightarrow> (Inr new_result, lib)
      | Some ds \<Rightarrow>
          (case reindex_walk env (the_store lib) new_result [] (sort (map fst ds)) of
             (Inl e, st') \<Rightarrow> (Inl e, lib\<lparr>the_store := st'\<rparr>)
           | (Inr (res, rcs), st') \<Rightarrow>
               (case write_ledger env [] rcs of
                  (Inl e, lines) \<Rightarrow> (Inl e, lib\<lparr>the_store := st'\<lparr>library_jsonl := Some lines\<rparr>\<rparr>)
                | (Inr u, lines) \<Rightarrow>
                    (case log_call ''info'' of
                       Inl e \<Rightarrow>
                         (Inl e, \<lparr>the_store = st'\<lparr>library_jsonl := Some lines\<rparr>,
                                  the_indexer = rebuild_index env rcs\<rparr>)
                     | Inr u' \<Rightarrow>
                         (Inr res, \<lparr>the_store = st'\<lparr>library_jsonl := Some lines\<rparr>,
                                    the_indexer = rebuild_index env rcs\<rparr>)))))"

section \<open>Notions the claims use\<close>

text \<open>The form of a SHA-256 \<open>hexdigest()\<close>: 64 lowercase hexadecimal digits.\<close>

definition is_hexdigest :: "string \<Rightarrow> bool" where
  "is_hexdigest s = (length s = 64 \<and> list_all is_hex_char s)"

text \<open>
  A resource whose fields hold what their types say where the code relies on it: a valid
  id, a valid URL and a content hash that is a string.
\<close>

definition well_formed :: "'dt resource \<Rightarrow> bool" where
  "well_formed r =
     (matches_id_pattern (resource_id r)
      \<and> (startswith (url r) ''http://'' \<or> startswith (url r) ''https://''
           \<or> startswith (url r) ''file://'')
      \<and> (\<exists>h. content_hash r = PStr h))"

text \<open>
  A level-1 heading line, its text, and a non-empty line under 200 characters, as the
  scans of the title heuristic test them.
\<close>

definition is_heading :: "string \<Rightarrow> bool" where
  "is_heading line = startswith (strip line) ''# ''"

definition heading_text :: "string \<Rightarrow> string" where
  "heading_text line = strip (drop 2 (strip line))"

definition is_short_line :: "string \<Rightarrow> bool" where
  "is_short_line line = (strip line \<noteq> [] \<and> length (strip line) < 200)"

definition is_delimiter_line :: "string \<Rightarrow> bool" where
  "is_delimiter_line line = (startswith (strip line) ''---'' \<or> startswith (strip line) ''+++'')"

text \<open>The content opens with a frontmatter delimiter line.\<close>

definition has_frontmatter :: "string \<Rightarrow> bool" where
  "has_frontmatter content =
     (case split_on CHR 0x0A content of
        [] \<Rightarrow> False
      | first # rest \<Rightarrow> strip first = ''---'' \<or> strip first = ''+++'')"

text \<open>
  A ledger line bears a resource id when, stripped, it is not blank and parses into a
  valid resource record with that id. A line is fatal when parsing it raises an
  exception that the \<open>except\<close> clause of \<open>_load\<close> does not catch.
\<close>

definition bears_id :: "('dt, 'x) pyenv_scheme \<Rightarrow> string \<Rightarrow> string \<Rightarrow> bool" where
  "bears_id env raw rid =
     (strip raw \<noteq> [] \<and> (\<exists>r. parse_resource env (strip raw) = Inr r \<and> resource_id r = rid))"

definition fatal_line :: "('dt, 'x) pyenv_scheme \<Rightarrow> string \<Rightarrow> bool" where
  "fatal_line env raw =
     (strip raw \<noteq> [] \<and> (\<exists>e. parse_resource env (strip raw) = Inl e \<and> \<not> caught_by_load e))"

text \<open>The text \<open>_load\<close> indexes for a resource: its title and the stored content, capped.\<close>

definition loaded_text :: "('dt, 'x) pyenv_scheme \<Rightarrow> store \<Rightarrow> 'dt resource \<Rightarrow> string" where
  "loaded_text env st r =
     indexed_text env r (case load_content st (resource_id r) of None \<Rightarrow> [] | Some c \<Rightarrow> take 10000 c)"

text \<open>
  The invariant of \<open>_load\<close>'s loop: the ids seen are the keys of the resource table,
  each key occurs once, and the index holds no count for an id not seen.
\<close>

definition load_inv :: "string list \<times> 'dt indexer \<Rightarrow> bool" where
  "load_inv acc =
     (set (fst acc) = fst ` set (resources (snd acc))
      \<and> distinct (map fst (resources (snd acc)))
      \<and> (\<forall>rid t. rid \<notin> set (fst acc) \<longrightarrow> count_of (index (snd acc)) t rid = 0))"

text \<open>
  The metadata \<open>Reindex\<close> writes for a resource reads back as that resource: a property
  of the standard library's JSON and ISO-8601 functions on the value written.
\<close>

definition reads_back :: "('dt, 'x) pyenv_scheme \<Rightarrow> 'dt resource \<Rightarrow> bool" where
  "reads_back env r =
     (\<forall>d. to_dict env r = Inr d \<longrightarrow> parse_resource env (json_dumps_indent env d) = Inr r)"

text \<open>
  A resource directory of a stored library: its \<open>meta.json\<close>, if present, holds a
  resource record with a string content hash, and the record under the title its
  content gives reads back once written.
\<close>

definition stored_ok :: "('dt, 'x) pyenv_scheme \<Rightarrow> store \<Rightarrow> string \<Rightarrow> bool" where
  "stored_ok env st name =
     (case meta_of st name of
        None \<Rightarrow> True
      | Some m \<Rightarrow>
          (\<exists>r h. parse_resource env m = Inr r \<and> content_hash r = PStr h
             \<and> (\<forall>t. title_from_content (content_of st name) = Some t \<longrightarrow>
                    reads_back env (retitled r (PStr t)))))"

text \<open>
  A directory whose stored title is the one the title heuristic gives for its content.
\<close>

definition stable_dir :: "('dt, 'x) pyenv_scheme \<Rightarrow> store \<Rightarrow> string \<Rightarrow> bool" where
  "stable_dir env st name =
     (case meta_of st name of
        None \<Rightarrow> True
      | Some m \<Rightarrow>
          (\<exists>r h. parse_resource env m = Inr r \<and> content_hash r = PStr h
             \<and> extract_title (content_of st name) (title r) = title r))"

text \<open>The resources and contents the named directories hold.\<close>

fun snapshot ::
  "('dt, 'x) pyenv_scheme \<Rightarrow> store \<Rightarrow> string list \<Rightarrow> ('dt resource \<times> string) list" where
  "snapshot env st [] = []"
| "snapshot env st (name # names) =
     (case meta_of st name of
        None \<Rightarrow> snapshot env st names
      | Some m \<Rightarrow>
          (case parse_resource env m of
             Inl e \<Rightarrow> snapshot env st names
           | Inr r \<Rightarrow> (r, content_of st name) # snapshot env st names))"

definition dir_names :: "store \<Rightarrow> string list" where
  "dir_names st = (case resource_dirs st of None \<Rightarrow> [] | Some ds \<Rightarrow> map fst ds)"

section \<open>Timestamps and their ISO-8601 text\<close>

text \<open>
  \<open>Timestamp\<close> wraps any \<open>datetime\<close> and checks nothing: \<open>iso\<close> is \<open>datetime.isoformat\<close>,
  \<open>from_iso\<close> is \<open>datetime.fromisoformat\<close>, and two timestamps are equal when their
  \<open>datetime\<close>s compare equal. To say what a round trip through the text keeps, the
  \<open>datetime\<close> of the standard library is modelled here as far as these three operations
  read it: the calendar fields, \<open>fold\<close>, and the \<open>tzinfo\<close>.

  A \<open>tzinfo\<close> is either a \<open>datetime.timezone\<close>, a fixed offset from UTC (in
  microseconds; \<open>timezone.utc\<close> is offset 0), or a zone with rules such as a
  \<open>zoneinfo.ZoneInfo\<close>: its key, and the UTC offset its rules give at the wall time of
  the \<open>datetime\<close> that carries it, for \<open>fold = 0\<close> and for \<open>fold = 1\<close>. The two offsets
  differ at a wall time that a clock change repeats or skips.
\<close>

datatype tzinfo = Timezone int | Zone string int int

record datetime =
  year :: nat
  month :: nat
  day :: nat
  hour :: nat
  minute :: nat
  second :: nat
  microsecond :: nat
  fold_attr :: bool
  tzinfo :: "tzinfo option"

definition utcoffset :: "datetime \<Rightarrow> int option" where
  "utcoffset d = (case tzinfo d of
                    None \<Rightarrow> None
                  | Some (Timezone n) \<Rightarrow> Some n
                  | Some (Zone key off0 off1) \<Rightarrow> Some (if fold_attr d then off1 else off0))"

definition is_leap :: "nat \<Rightarrow> bool" where
  "is_leap y \<longleftrightarrow> y mod 4 = 0 \<and> (y mod 100 \<noteq> 0 \<or> y mod 400 = 0)"

definition days_in_month :: "nat \<Rightarrow> nat \<Rightarrow> nat" where
  "days_in_month y m = (if m = 2 \<and> is_leap y then 29
                        else [0, 31, 28, 31, 30, 31, 30, 31, 31, 30, 31, 30, 31] ! m)"

definition days_before_year :: "nat \<Rightarrow> nat" where
  "days_before_year y = (y - 1) * 365 + (y - 1) div 4 - (y - 1) div 100 + (y - 1) div 400"

definition days_before_month :: "nat \<Rightarrow> nat \<Rightarrow> nat" where
  "days_before_month y m = [0, 0, 31, 59, 90, 120, 151, 181, 212, 243, 273, 304, 334] ! m
                             + (if 2 < m \<and> is_leap y then 1 else 0)"

definition ymd2ord :: "nat \<Rightarrow> nat \<Rightarrow> nat \<Rightarrow> nat" where
  "ymd2ord y m d = days_before_year y + days_before_month y m + d"

definition day_micros :: int where
  "day_micros = 86400000000"

text \<open>
  The values a \<open>datetime\<close> can hold: the constructor checks the fields, and
  \<open>utcoffset\<close> refuses an offset of a day or more.
\<close>

definition offset_ok :: "int \<Rightarrow> bool" where
  "offset_ok n \<longleftrightarrow> - day_micros < n \<and> n < day_micros"

definition wf_datetime :: "datetime \<Rightarrow> bool" where
  "wf_datetime d \<longleftrightarrow>
     1 \<le> year d \<and> year d \<le> 9999 \<and> 1 \<le> month d \<and> month d \<le> 12
     \<and> 1 \<le> day d \<and> day d \<le> days_in_month (year d) (month d)
     \<and> hour d < 24 \<and> minute d < 60 \<and> second d < 60 \<and> microsecond d < 1000000
     \<and> (case tzinfo d of
          None \<Rightarrow> True
        | Some (Timezone n) \<Rightarrow> offset_ok n
        | Some (Zone key off0 off1) \<Rightarrow> offset_ok off0 \<and> offset_ok off1)"

subsection \<open>Equality\<close>

text \<open>
  \<open>datetime.__eq__\<close>. Two naive values compare by their fields, a naive and an aware
  one are unequal. Two aware values with one \<open>tzinfo\<close> object compare by their fields.
  With two \<open>tzinfo\<close> objects, a value whose offset changes with its \<open>fold\<close> is unequal
  to everything; otherwise the fields are compared when the offsets agree and the UTC
  instants when they do not.

  \<open>same_tzinfo\<close> is the test \<open>mytz is ottz\<close>: the zones of one key are one object (the
  \<open>ZoneInfo\<close> constructor caches them). Two \<open>timezone\<close> values are compared as two
  objects; were they one object the answer would be the same, their offset being one.
\<close>

definition wall :: "datetime \<Rightarrow> nat \<times> nat \<times> nat \<times> nat \<times> nat \<times> nat \<times> nat" where
  "wall d = (year d, month d, day d, hour d, minute d, second d, microsecond d)"

definition wall_micros :: "datetime \<Rightarrow> int" where
  "wall_micros d =
     int ((((ymd2ord (year d) (month d) (day d) * 24 + hour d) * 60 + minute d) * 60
            + second d) * 1000000 + microsecond d)"

definition fold_dependent :: "datetime \<Rightarrow> bool" where
  "fold_dependent d \<longleftrightarrow> utcoffset d \<noteq> utcoffset (d\<lparr>fold_attr := \<not> fold_attr d\<rparr>)"

fun same_tzinfo :: "tzinfo \<Rightarrow> tzinfo \<Rightarrow> bool" where
  "same_tzinfo (Zone key off0 off1) (Zone key' off0' off1') = (key = key')"
| "same_tzinfo a b = False"

definition dt_eq :: "datetime \<Rightarrow> datetime \<Rightarrow> bool" where
  "dt_eq a b =
     (case (tzinfo a, tzinfo b) of
        (None, None) \<Rightarrow> wall a = wall b
      | (None, Some tb) \<Rightarrow> False
      | (Some ta, None) \<Rightarrow> False
      | (Some ta, Some tb) \<Rightarrow>
          if same_tzinfo ta tb then wall a = wall b
          else if fold_dependent a \<or> fold_dependent b then False
          else if utcoffset a = utcoffset b then wall a = wall b
          else wall_micros a - the (utcoffset a) = wall_micros b - the (utcoffset b))"

subsection \<open>Writing the text\<close>

definition digit_char :: "nat \<Rightarrow> char" where
  "digit_char n = ''0123456789'' ! (n mod 10)"

text \<open>\<open>pad k n\<close> is \<open>n\<close> in \<open>k\<close> decimal digits, \<open>'%0kd' % n\<close> for \<open>n < 10 ^ k\<close>.\<close>

fun pad :: "nat \<Rightarrow> nat \<Rightarrow> string" where
  "pad 0 n = []"
| "pad (Suc k) n = pad k (n div 10) @ [digit_char n]"

definition format_time :: "nat \<Rightarrow> nat \<Rightarrow> nat \<Rightarrow> nat \<Rightarrow> string" where
  "format_time hh mm ss us =
     pad 2 hh @ '':'' @ pad 2 mm @ '':'' @ pad 2 ss
     @ (if us \<noteq> 0 then ''.'' @ pad 6 us else [])"

definition format_offset :: "int option \<Rightarrow> string" where
  "format_offset off =
     (case off of
        None \<Rightarrow> []
      | Some n \<Rightarrow>
          (let a = nat \<bar>n\<bar>;
               hh = a div 3600000000;
               r = a mod 3600000000;
               mm = r div 60000000;
               r' = r mod 60000000;
               ss = r' div 1000000;
               us = r' mod 1000000
           in (if n < 0 then ''-'' else ''+'') @ pad 2 hh @ '':'' @ pad 2 mm
              @ (if ss \<noteq> 0 \<or> us \<noteq> 0
                 then '':'' @ pad 2 ss @ (if us \<noteq> 0 then ''.'' @ pad 6 us else [])
                 else [])))"

definition py_isoformat :: "datetime \<Rightarrow> string" where
  "py_isoformat d =
     pad 4 (year d) @ ''-'' @ pad 2 (month d) @ ''-'' @ pad 2 (day d) @ ''T''
     @ format_time (hour d) (minute d) (second d) (microsecond d)
     @ format_offset (utcoffset d)"

subsection \<open>Reading the text\<close>

text \<open>
  \<open>parse_isoformat\<close> reads the texts of the form \<open>isoformat\<close> writes,
  \<open>YYYY-MM-DDTHH:MM[:SS[.ffffff]][+HH:MM[:SS[.ffffff]]]\<close>, as \<open>fromisoformat\<close> does: the
  fields by position, the offset from the first sign after the date, the result a
  \<open>datetime\<close> with \<open>fold = 0\<close> whose \<open>tzinfo\<close> is a \<open>timezone\<close> of the offset read, and
  nothing when a field is out of range. \<open>fromisoformat\<close> also accepts other texts
  (any separator in place of \<open>T\<close>; more forms of ISO 8601 from Python 3.11 on); what it
  does with those is left to the environment.
\<close>

definition digit_of :: "char \<Rightarrow> nat option" where
  "digit_of c = map_of [(CHR ''0'', 0), (CHR ''1'', 1), (CHR ''2'', 2), (CHR ''3'', 3),
                        (CHR ''4'', 4), (CHR ''5'', 5), (CHR ''6'', 6), (CHR ''7'', 7),
                        (CHR ''8'', 8), (CHR ''9'', 9)] c"

fun read_digits :: "nat \<Rightarrow> string \<Rightarrow> nat option" where
  "read_digits acc [] = Some acc"
| "read_digits acc (c # cs) = (case digit_of c of
                                None \<Rightarrow> None
                              | Some v \<Rightarrow> read_digits (10 * acc + v) cs)"

definition read_number :: "nat \<Rightarrow> string \<Rightarrow> nat option" where
  "read_number k s = (if length s = k then read_digits 0 s else None)"

definition parse_hh_mm_ss_ff :: "string \<Rightarrow> (nat \<times> nat \<times> nat \<times> nat) option" where
  "parse_hh_mm_ss_ff s =
     (case (read_number 2 (take 2 s), read_number 2 (take 2 (drop 3 s))) of
        (Some hh, Some mm) \<Rightarrow>
          if take 1 (drop 2 s) \<noteq> '':'' then None
          else if length s = 5 then Some (hh, mm, 0, 0)
          else (case read_number 2 (take 2 (drop 6 s)) of
                  None \<Rightarrow> None
                | Some ss \<Rightarrow>
                    if take 1 (drop 5 s) \<noteq> '':'' then None
                    else if length s = 8 then Some (hh, mm, ss, 0)
                    else (case read_number 6 (drop 9 s) of
                            None \<Rightarrow> None
                          | Some ff \<Rightarrow>
                              if take 1 (drop 8 s) = ''.'' then Some (hh, mm, ss, ff)
                              else None))
      | _ \<Rightarrow> None)"

definition is_sign :: "char \<Rightarrow> bool" where
  "is_sign c \<longleftrightarrow> c = CHR ''+'' \<or> c = CHR ''-''"

definition parse_offset :: "string \<Rightarrow> tzinfo option option" where
  "parse_offset s =
     (case s of
        [] \<Rightarrow> Some None
      | sg # tzstr \<Rightarrow>
          (case parse_hh_mm_ss_ff tzstr of
             None \<Rightarrow> None
           | Some (hh, mm, ss, ff) \<Rightarrow>
               (let n = int (((hh * 60 + mm) * 60 + ss) * 1000000 + ff)
                in if mm < 60 \<and> ss < 60 \<and> n < day_micros
                   then Some (Some (Timezone (if sg = CHR ''-'' then - n else n)))
                   else None)))"

definition parse_isoformat :: "string \<Rightarrow> datetime option" where
  "parse_isoformat s =
     (let dstr = take 10 s;
          tstr = drop 11 s;
          timestr = takeWhile (\<lambda>c. \<not> is_sign c) tstr;
          tzstr = dropWhile (\<lambda>c. \<not> is_sign c) tstr
      in if take 1 (drop 10 s) \<noteq> ''T'' \<or> take 1 (drop 4 dstr) \<noteq> ''-''
            \<or> take 1 (drop 7 dstr) \<noteq> ''-''
         then None
         else (case (read_number 4 (take 4 dstr), read_number 2 (take 2 (drop 5 dstr)),
                     read_number 2 (drop 8 dstr), parse_hh_mm_ss_ff timestr,
                     parse_offset tzstr) of
                 (Some y, Some m, Some d, Some (hh, mm, ss, ff), Some tz) \<Rightarrow>
                   (let dt = \<lparr>year = y, month = m, day = d, hour = hh, minute = mm,
                              second = ss, microsecond = ff, fold_attr = False,
                              tzinfo = tz\<rparr>
                    in if wf_datetime dt then Some dt else None)
               | _ \<Rightarrow> None))"

text \<open>
  The standard library, for an environment whose timestamps are these \<open>datetime\<close>s:
  \<open>isoformat\<close> writes the text above, and \<open>fromisoformat\<close> reads every text of that
  form as \<open>parse_isoformat\<close> does.
\<close>

definition standard_datetime :: "(datetime, 'x) pyenv_scheme \<Rightarrow> bool" where
  "standard_datetime env \<longleftrightarrow>
     (\<forall>d. wf_datetime d \<longrightarrow> isoformat env d = py_isoformat d)
     \<and> (\<forall>s d. parse_isoformat s = Some d \<longrightarrow> fromisoformat env s = Some d)"

text \<open>
  What reading back keeps of a timestamp: the fields and the offset. The \<open>fold\<close> and
  the identity of the zone are not in the text.
\<close>

definition as_read :: "datetime \<Rightarrow> datetime" where
  "as_read d = d\<lparr>fold_attr := False, tzinfo := map_option Timezone (utcoffset d)\<rparr>"

section \<open>Concrete inputs\<close>

text \<open>
  A stand-in for the standard library, used to run the model on concrete inputs:
  datetimes are written as their ISO text, the hash and the JSON functions are tables
  over the few texts the examples use.
\<close>

definition nl :: string where
  "nl = [CHR 0x0A]"

definition frontmatter_doc :: string where
  "frontmatter_doc = ''---'' @ nl @ ''title: Hello World'' @ nl @ ''---'' @ nl @ ''body text''"

text \<open>
  The SHA-256 digests of the two texts the examples hash; any other text gets a fixed
  digest.
\<close>

definition stub_sha256 :: "string \<Rightarrow> string" where
  "stub_sha256 s =
     (if s = ''https://example.com/empty''
      then ''cb735605a866ac4ecb9109138227971ffd3cac65bea9f91470bbce374e223adb''
      else if s = frontmatter_doc
      then ''f5df5c309c4b5dc58889c2064a7a8c16eee47cd6afd774e656079ad8df7a5ba3''
      else ''2dce0a4c50441bfccfa9caf4b58c3cba6e06c420505dd829f0436de1aa44baac'')"

definition stub_time :: string where
  "stub_time = ''2024-01-01T00:00:00+00:00''"

definition resource_A :: "string resource" where
  "resource_A = \<lparr>resource_id = ''00000000000a'', title = PStr ''Doc A'',
     url = ''https://example.com/a'', captured_at = stub_time,
     content_hash = PStr ''aa'', tags = PList [], snippet_count = PInt 0\<rparr>"

definition resource_B :: "string resource" where
  "resource_B = \<lparr>resource_id = ''00000000000b'', title = PStr ''Doc B'',
     url = ''https://example.com/b'', captured_at = stub_time,
     content_hash = PStr ''bb'', tags = PList [], snippet_count = PInt 0\<rparr>"

definition dict_of :: "string resource \<Rightarrow> pyval" where
  "dict_of r = PDict [(''id'', PStr (resource_id r)), (''title'', title r),
     (''url'', PStr (url r)), (''captured_at'', PStr (captured_at r)),
     (''content_hash'', content_hash r), (''tags'', tags r),
     (''snippet_count'', snippet_count r)]"

text \<open>
  The texts the stub parser knows: \<open>[]\<close> is the empty JSON array; \<open>line-A\<close>, \<open>line-B\<close>,
  \<open>line-A2\<close> and \<open>line-A-retitled\<close> stand for the JSON objects of resource A, of
  resource B, of a second record that carries the id of A under another title, and of
  resource A under the title "Real Title"; every other text is not JSON. The stub
  serializer writes \<open>line-A-retitled\<close> for that last object.
\<close>

definition resource_A_retitled :: "string resource" where
  "resource_A_retitled = resource_A\<lparr>title := PStr ''Real Title''\<rparr>"

definition stub_json_loads :: "string \<Rightarrow> pyval option" where
  "stub_json_loads text =
     map_of [(''[]'', PList []),
             (''line-A'', dict_of resource_A),
             (''line-B'', dict_of resource_B),
             (''line-A2'', dict_of (resource_A\<lparr>title := PStr ''Other beta beta''\<rparr>)),
             (''line-A-retitled'', dict_of resource_A_retitled)] text"

definition stub_env :: "string pyenv" where
  "stub_env = \<lparr>sha256_hexdigest = stub_sha256,
                json_loads = stub_json_loads,
                json_dumps = (\<lambda>v. ''line''),
                json_dumps_indent = (\<lambda>v. if v = dict_of resource_A_retitled
                                         then ''line-A-retitled'' else ''meta''),
                fromisoformat = (\<lambda>s. if s = stub_time then Some s else None),
                isoformat = (\<lambda>d. d),
                format_value = (\<lambda>v. ''None'')\<rparr>"

definition index_AB :: "string indexer" where
  "index_AB = index_resource stub_env
                (index_resource stub_env empty_indexer resource_A ''alpha beta beta'')
                resource_B ''beta''"

text \<open>
  Collaborators for the examples: a snapshotter that finds no text at
  \<open>https://example.com/empty\<close>, and a file system with one file.
\<close>

definition stub_io :: "string ports" where
  "stub_io = \<lparr>capture = (\<lambda>u. if u = ''https://example.com/empty''
                              then (None, Some ''<html></html>'')
                              else (Some ''Some text'', None)),
               now = stub_time,
               abspath = (\<lambda>p. ''/home/user/'' @ p),
               read_file = map_of [(''notes/hello.md'', frontmatter_doc)]\<rparr>"

definition empty_store :: store where
  "empty_store = \<lparr>resource_dirs = None, library_jsonl = None\<rparr>"

definition empty_library :: "string library" where
  "empty_library = \<lparr>the_store = empty_store, the_indexer = empty_indexer\<rparr>"

text \<open>
  A store whose ledger names resource A twice (the second time under another title),
  with a line that is not JSON, the record of B and a blank line in between and after;
  \<open>content.md\<close> of A holds "alpha beta beta".
\<close>

definition ledger_store :: store where
  "ledger_store =
     \<lparr>resource_dirs = Some [(''00000000000a'',
          \<lparr>meta_json = Some ''line-A'', content_md = Some ''alpha beta beta'',
           snippets_json = None, snapshot_html = None\<rparr>)],
      library_jsonl = Some ([] @ ''line-A'' # [''not json'', ''line-B''] @ ''line-A2'' # [''  ''])\<rparr>"

text \<open>A ledger whose first line is the JSON array \<open>[]\<close>, followed by the record of A.\<close>

definition array_ledger_store :: store where
  "array_ledger_store = \<lparr>resource_dirs = None, library_jsonl = Some [''[]'', ''line-A'']\<rparr>"

text \<open>A library with one resource directory whose \<open>meta.json\<close> is not JSON.\<close>

definition broken_library :: "string library" where
  "broken_library =
     \<lparr>the_store = \<lparr>resource_dirs = Some [(''00000000000a'',
                       \<lparr>meta_json = Some ''{'', content_md = Some ''# Title'',
                        snippets_json = None, snapshot_html = None\<rparr>)],
                    library_jsonl = Some []\<rparr>,
      the_indexer = empty_indexer\<rparr>"

text \<open>
  A library with one resource directory: the metadata of resource A (title "Doc A") and
  a content whose first line is the heading "Real Title".
\<close>

definition reindex_library :: "string library" where
  "reindex_library =
     \<lparr>the_store = \<lparr>resource_dirs = Some [(''00000000000a'',
                       \<lparr>meta_json = Some ''line-A'', content_md = Some ''# Real Title'',
                        snippets_json = None, snapshot_html = None\<rparr>)],
                    library_jsonl = Some [''line-A'']\<rparr>,
      the_indexer = empty_indexer\<rparr>"

section \<open>Properties of the keyword index\<close>


lemma count_of_index_term:
  "count_of (index_term rid idx t) t' rid' =
     count_of idx t' rid' + (if t = t' \<and> rid = rid' then 1 else 0)"
  by (auto simp: index_term_def count_of_def counter_add_def counter_get_def Let_def
        update_conv' map_of_eq_None_iff[symmetric] split: option.splits)

lemma count_of_foldl_index_term:
  "count_of (foldl (index_term rid) idx ts) t' rid' =
     count_of idx t' rid' + (if rid = rid' then int (count_list ts t') else 0)"
  by (induction ts arbitrary: idx) (auto simp: count_of_index_term)

lemma count_of_index_resource:
  "count_of (index (index_resource env ix r c)) t rid =
     count_of (index ix) t rid +
       (if rid = resource_id r then int (count_list (tokenize (indexed_text env r c)) t) else 0)"
  by (auto simp: index_resource_def Let_def count_of_foldl_index_term)


lemma counter_get_counter_add:
  "counter_get (counter_add k n c) k' = counter_get c k' + (if k = k' then n else 0)"
  by (simp add: counter_get_def counter_add_def update_conv')

lemma counter_get_notin: "k \<notin> fst ` set c \<Longrightarrow> counter_get c k = 0"
  by (simp add: counter_get_def map_of_eq_None_iff[symmetric])

lemma counter_get_add_posting:
  "distinct (map fst p) \<Longrightarrow>
     counter_get (add_posting s p) rid = counter_get s rid + counter_get p rid"
proof (induction p arbitrary: s)
  case Nil
  then show ?case by (simp add: add_posting_def counter_get_def)
next
  case (Cons e p)
  have step: "add_posting s (e # p) = add_posting (counter_add (fst e) (snd e) s) p"
    by (simp add: add_posting_def)
  from Cons.prems have d: "distinct (map fst p)" and nin: "fst e \<notin> fst ` set p"
    by auto
  have head: "counter_get (e # p) rid = (if fst e = rid then snd e else counter_get p rid)"
    by (cases e) (simp add: counter_get_def)
  show ?case
    using Cons.IH[OF d, of "counter_add (fst e) (snd e) s"] nin
    by (auto simp: step head counter_get_counter_add counter_get_notin)
qed

lemma keys_add_posting: "fst ` set (add_posting s p) = fst ` set s \<union> fst ` set p"
proof (induction p arbitrary: s)
  case Nil
  then show ?case by (simp add: add_posting_def)
next
  case (Cons e p)
  have step: "add_posting s (e # p) = add_posting (counter_add (fst e) (snd e) s) p"
    by (simp add: add_posting_def)
  show ?case
    unfolding step Cons.IH by (auto simp: counter_add_def dom_update)
qed

lemma distinct_add_posting:
  "distinct (map fst s) \<Longrightarrow> distinct (map fst (add_posting s p))"
proof (induction p arbitrary: s)
  case Nil
  then show ?case by (simp add: add_posting_def)
next
  case (Cons e p)
  have step: "add_posting s (e # p) = add_posting (counter_add (fst e) (snd e) s) p"
    by (simp add: add_posting_def)
  show ?case
    unfolding step using Cons.prems by (intro Cons.IH) (simp add: counter_add_def distinct_update)
qed

lemma map_of_posting_ok:
  "\<forall>tc \<in> set idx. posting_ok (snd tc) \<Longrightarrow> map_of idx t = Some p \<Longrightarrow> posting_ok p"
  by (auto dest!: map_of_SomeD)

lemma counter_get_score_term:
  assumes ok: "\<forall>tc \<in> set idx. posting_ok (snd tc)"
  shows "counter_get (score_term idx s t) rid = counter_get s rid + count_of idx t rid"
proof (cases "map_of idx t")
  case None
  then show ?thesis by (simp add: score_term_def count_of_def)
next
  case (Some p)
  with map_of_posting_ok[OF ok Some] show ?thesis
    by (simp add: score_term_def count_of_def counter_get_add_posting posting_ok_def)
qed

lemma distinct_score_term:
  "distinct (map fst s) \<Longrightarrow> distinct (map fst (score_term idx s t))"
  by (simp add: score_term_def distinct_add_posting split: option.splits)

lemma keys_score_term:
  "fst ` set (score_term idx s t) = fst ` set s \<union> term_keys idx [t]"
  by (auto simp: score_term_def keys_add_posting term_keys_def split: option.splits)

lemma term_keys_Cons: "term_keys idx (t # ts) = term_keys idx [t] \<union> term_keys idx ts"
  by (auto simp: term_keys_def)

lemma counter_get_scores:
  assumes ok: "\<forall>tc \<in> set idx. posting_ok (snd tc)"
  shows "counter_get (foldl (score_term idx) s terms) rid =
           counter_get s rid + sum_list (map (\<lambda>t. count_of idx t rid) terms)"
proof (induction terms arbitrary: s)
  case Nil
  show ?case by simp
next
  case (Cons t terms)
  show ?case
    by (simp only: foldl_Cons Cons.IH counter_get_score_term[OF ok] list.map sum_list.Cons add.assoc)
qed

lemma distinct_scores:
  "distinct (map fst s) \<Longrightarrow> distinct (map fst (foldl (score_term idx) s terms))"
  by (induction terms arbitrary: s) (simp_all only: foldl_Nil foldl_Cons distinct_score_term)

lemma keys_scores:
  "fst ` set (foldl (score_term idx) s terms) = fst ` set s \<union> term_keys idx terms"
proof (induction terms arbitrary: s)
  case Nil
  show ?case by (simp add: term_keys_def)
next
  case (Cons t terms)
  show ?case
    unfolding foldl_Cons Cons.IH keys_score_term term_keys_Cons[of idx t terms] by blast
qed

lemma count_of_nonneg:
  assumes ok: "\<forall>tc \<in> set idx. posting_ok (snd tc)"
  shows "0 \<le> count_of idx t rid"
proof (cases "map_of idx t")
  case None
  then show ?thesis by (simp add: count_of_def)
next
  case (Some p)
  from map_of_posting_ok[OF ok Some] show ?thesis
    using Some by (auto simp: count_of_def counter_get_def posting_ok_def
        split: option.splits dest!: map_of_SomeD)
qed

lemma count_of_pos:
  assumes ok: "\<forall>tc \<in> set idx. posting_ok (snd tc)"
    and "map_of idx t = Some p" and "rid \<in> fst ` set p"
  shows "0 < count_of idx t rid"
proof -
  from map_of_posting_ok[OF ok assms(2)] have pk: "posting_ok p" .
  from assms(3) obtain n where "map_of p rid = Some n"
    by (metis map_of_eq_None_iff not_None_eq)
  moreover from this have "(rid, n) \<in> set p" by (rule map_of_SomeD)
  ultimately show ?thesis
    using pk assms(2) by (auto simp: count_of_def counter_get_def posting_ok_def)
qed

lemma count_of_zero:
  assumes "rid \<notin> term_keys idx terms" and "t \<in> set terms"
  shows "count_of idx t rid = 0"
  using assms by (auto simp: term_keys_def count_of_def counter_get_notin split: option.splits)

lemma sum_list_pos_member:
  fixes f :: "'a \<Rightarrow> int"
  assumes "\<forall>x \<in> set xs. 0 \<le> f x" and "y \<in> set xs" and "0 < f y"
  shows "0 < sum_list (map f xs)"
  using assms
proof (induction xs)
  case Nil
  then show ?case by simp
next
  case (Cons x xs)
  have nn: "0 \<le> sum_list (map f xs)"
    using Cons.prems(1) by (intro sum_list_nonneg) auto
  show ?case
  proof (cases "y = x")
    case True
    with Cons.prems nn show ?thesis by simp
  next
    case False
    with Cons have "0 < sum_list (map f xs)" by simp
    moreover have "0 \<le> f x" using Cons.prems(1) by simp
    ultimately show ?thesis by simp
  qed
qed

lemma term_keys_iff_pos:
  assumes ok: "\<forall>tc \<in> set idx. posting_ok (snd tc)"
  shows "rid \<in> term_keys idx terms \<longleftrightarrow> 0 < sum_list (map (\<lambda>t. count_of idx t rid) terms)"
proof
  assume "rid \<in> term_keys idx terms"
  then obtain t p where t: "t \<in> set terms" "map_of idx t = Some p" "rid \<in> fst ` set p"
    by (auto simp: term_keys_def)
  show "0 < sum_list (map (\<lambda>t. count_of idx t rid) terms)"
    by (rule sum_list_pos_member[where y = t])
       (use t count_of_nonneg[OF ok] count_of_pos[OF ok t(2,3)] in auto)
next
  assume pos: "0 < sum_list (map (\<lambda>t. count_of idx t rid) terms)"
  show "rid \<in> term_keys idx terms"
  proof (rule ccontr)
    assume "rid \<notin> term_keys idx terms"
    then have "map (\<lambda>t. count_of idx t rid) terms = map (\<lambda>t. 0) terms"
      by (intro map_cong refl) (rule count_of_zero)
    with pos show False by simp
  qed
qed


lemma map_result_all_ok:
  "\<forall>x \<in> set xs. f x = Inr (g x) \<Longrightarrow> map_result f xs = Inr (map g xs)"
  by (induction xs) (simp_all add: and_then_def)

lemma distinct_map_fst_sort_key:
  "distinct (map fst (sort_key f xs)) = distinct (map fst xs)"
  by (simp add: distinct_map)

lemma entry_value:
  "distinct (map fst c) \<Longrightarrow> e \<in> set c \<Longrightarrow> snd e = counter_get c (fst e)"
  by (cases e) (simp add: counter_get_def)

lemma search_local_ranked_aux:
  assumes ok: "index_ok ix"
  shows "\<exists>res. search_local ix q k = Inr res
           \<and> distinct res
           \<and> length res = min (nat k) (card {rid. 0 < summed_count ix q rid})
           \<and> (\<forall>rid \<in> set res. 0 < summed_count ix q rid)
           \<and> sorted_wrt (\<lambda>a b. a \<ge> b) (map (summed_count ix q) res)
           \<and> (\<forall>rid \<in> set res. \<forall>rid'. rid' \<notin> set res \<longrightarrow>
                 summed_count ix q rid' \<le> summed_count ix q rid)"
proof -
  define sc where "sc = summed_count ix q"
  define idx where "idx = index ix"
  define scores where "scores = foldl (score_term idx) [] (tokenize q)"
  define L where "L = sort_key (\<lambda>p. - snd p) scores"
  define top where "top = take (nat k) L"
  have ok': "\<forall>tc \<in> set idx. posting_ok (snd tc)"
    using ok by (simp add: index_ok_def idx_def)
  have dist: "distinct (map fst scores)"
    unfolding scores_def by (rule distinct_scores) simp
  have val: "counter_get scores rid = sc rid" for rid
    unfolding scores_def counter_get_scores[OF ok']
    by (simp add: sc_def summed_count_def idx_def[symmetric] counter_get_def)
  have keys: "fst ` set scores = {rid. 0 < sc rid}"
    unfolding scores_def keys_scores
    by (auto simp: term_keys_iff_pos[OF ok'] sc_def summed_count_def idx_def[symmetric])
  have snd_eq: "snd e = sc (fst e)" if "e \<in> set scores" for e
    using entry_value[OF dist that] val by simp
  have valid: "matches_id_pattern (fst e)" if "e \<in> set scores" for e
  proof -
    from that have "fst e \<in> term_keys idx (tokenize q)"
      using keys_scores[of idx "[]" "tokenize q"] by (auto simp: scores_def)
    then obtain t p where tp: "map_of idx t = Some p" "fst e \<in> fst ` set p"
      by (auto simp: term_keys_def)
    from map_of_posting_ok[OF ok' tp(1)] tp(2) show ?thesis
      by (fastforce simp: posting_ok_def)
  qed
  have setL: "set L = set scores" by (simp add: L_def)
  have top_sub: "set top \<subseteq> set scores"
    using set_take_subset[of "nat k" L] by (simp add: top_def setL)
  have res: "search_local ix q k = Inr (map fst top)"
    unfolding search_local_def Let_def most_common_def
    using top_sub valid
    by (simp add: top_def L_def scores_def idx_def ResourceId_def)
       (rule map_result_all_ok, auto simp: top_def L_def scores_def idx_def ResourceId_def)
  have distL: "distinct (map fst L)"
    by (simp add: L_def distinct_map_fst_sort_key dist)
  have d: "distinct (map fst top)"
    using distL by (simp add: top_def take_map[symmetric])
  have "length scores = card (fst ` set scores)"
    using dist by (metis distinct_card length_map set_map)
  then have len: "length (map fst top) = min (nat k) (card {rid. 0 < sc rid})"
    by (simp add: top_def L_def keys min.commute)
  have pos: "\<forall>rid \<in> set (map fst top). 0 < sc rid"
    using top_sub keys by auto
  have sortedL: "sorted (map (\<lambda>p. - snd p) L)"
    by (simp add: L_def)
  have map_sc: "map sc (map fst top) = map snd top"
  proof -
    have "sc (fst e) = snd e" if "e \<in> set top" for e
      using snd_eq[of e] that top_sub by auto
    then show ?thesis by simp
  qed
  have "sorted (map (\<lambda>p. - snd p) top)"
    using sortedL by (simp add: top_def take_map[symmetric] sorted_wrt_take)
  then have srt: "sorted_wrt (\<lambda>a b. a \<ge> b) (map sc (map fst top))"
    unfolding map_sc by (simp add: sorted_wrt_map sorted_map)
  have best: "sc rid' \<le> sc rid" if r: "rid \<in> set (map fst top)" and r': "rid' \<notin> set (map fst top)"
    for rid rid'
  proof (cases "rid' \<in> fst ` set scores")
    case False
    then have "\<not> 0 < sc rid'" using keys by simp
    moreover have "0 < sc rid" using pos r by blast
    ultimately show ?thesis by simp
  next
    case True
    then obtain e' where e': "e' \<in> set scores" "fst e' = rid'" by auto
    from r obtain e where e: "e \<in> set top" "fst e = rid" by auto
    have "e' \<notin> set top" using r' e'(2) by force
    moreover have "set L = set top \<union> set (drop (nat k) L)"
      by (metis append_take_drop_id set_append top_def)
    ultimately have "e' \<in> set (drop (nat k) L)" using e'(1) setL by blast
    moreover have "sorted (map (\<lambda>p. - snd p) (top @ drop (nat k) L))"
      using sortedL by (simp add: top_def)
    ultimately have "- snd e \<le> - snd e'"
      using e(1) by (auto simp: sorted_append)
    then show ?thesis
      using snd_eq[OF e'(1)] snd_eq[of e] e top_sub e'(2) by auto
  qed
  show ?thesis
    unfolding sc_def[symmetric] using res d len pos srt best by blast
qed


lemma set_update_cases:
  "e \<in> set (AList.update k v al) \<Longrightarrow> e = (k, v) \<or> e \<in> set al"
  by (induction al) (auto split: if_splits)

lemma set_delete_subset: "set (AList.delete k al) \<subseteq> set al"
  by (induction al) auto

lemma counter_get_nonneg: "posting_ok c \<Longrightarrow> 0 \<le> counter_get c k"
  by (auto simp: counter_get_def posting_ok_def split: option.splits dest!: map_of_SomeD)

lemma posting_ok_counter_add:
  assumes "posting_ok c" and "matches_id_pattern rid"
  shows "posting_ok (counter_add rid 1 c)"
proof -
  have "matches_id_pattern (fst e) \<and> 0 < snd e" if "e \<in> set (counter_add rid 1 c)" for e
    using set_update_cases[OF that[unfolded counter_add_def]] assms counter_get_nonneg[OF assms(1), of rid]
    by (auto simp: posting_ok_def)
  then show ?thesis
    using assms(1) by (simp add: posting_ok_def counter_add_def distinct_update)
qed

lemma posting_ok_Nil: "posting_ok []"
  by (simp add: posting_ok_def)

lemma index_term_ok:
  assumes ok: "\<forall>tc \<in> set idx. posting_ok (snd tc)" and rid: "matches_id_pattern rid"
  shows "\<forall>tc \<in> set (index_term rid idx t). posting_ok (snd tc)"
proof
  fix tc
  assume tc: "tc \<in> set (index_term rid idx t)"
  define idx' where "idx' = (if t \<notin> fst ` set idx then AList.update t [] idx else idx)"
  define c where "c = (case map_of idx' t of None \<Rightarrow> [] | Some c \<Rightarrow> c)"
  have ok': "\<forall>tc \<in> set idx'. posting_ok (snd tc)"
  proof
    fix e assume "e \<in> set idx'"
    then have "e = (t, []) \<or> e \<in> set idx"
      using set_update_cases[of e t "[]" idx] by (auto simp: idx'_def split: if_splits)
    then show "posting_ok (snd e)" using ok by (auto simp: posting_ok_Nil)
  qed
  have "posting_ok c"
    using map_of_posting_ok[OF ok'] by (auto simp: c_def posting_ok_Nil split: option.splits)
  then have "posting_ok (counter_add rid 1 c)"
    using rid by (rule posting_ok_counter_add)
  moreover have "tc = (t, counter_add rid 1 c) \<or> tc \<in> set idx'"
    using tc set_update_cases[of tc t "counter_add rid 1 c" idx']
    by (simp add: index_term_def Let_def idx'_def c_def)
  ultimately show "posting_ok (snd tc)"
    using ok' by auto
qed

lemma foldl_index_term_ok:
  "\<forall>tc \<in> set idx. posting_ok (snd tc) \<Longrightarrow> matches_id_pattern rid \<Longrightarrow>
     \<forall>tc \<in> set (foldl (index_term rid) idx ts). posting_ok (snd tc)"
proof (induction ts arbitrary: idx)
  case Nil
  then show ?case by simp
next
  case (Cons t ts)
  show ?case
    unfolding foldl_Cons
    by (rule Cons.IH[OF index_term_ok[OF Cons.prems] Cons.prems(2)])
qed

lemma index_ok_empty: "index_ok empty_indexer"
  by (simp add: index_ok_def empty_indexer_def)

lemma index_ok_index_resource:
  "index_ok ix \<Longrightarrow> matches_id_pattern (resource_id r) \<Longrightarrow> index_ok (index_resource env ix r c)"
  unfolding index_ok_def index_resource_def Let_def
  by (simp only: indexer.simps) (rule foldl_index_term_ok)

lemma posting_ok_delete: "posting_ok p \<Longrightarrow> posting_ok (AList.delete rid p)"
  using set_delete_subset[of rid p] by (auto simp: posting_ok_def distinct_delete)

lemma index_ok_remove: "index_ok ix \<Longrightarrow> index_ok (remove ix rid)"
  by (auto simp: index_ok_def remove_def posting_ok_delete)

lemma findall_runs_sep:
  "\<not> is_token_char sep \<Longrightarrow>
     findall_runs cur (xs @ sep # ys) = findall_runs cur xs @ findall_runs [] ys"
  by (induction xs arbitrary: cur) simp_all

lemma lower_char_space: "lower_char CHR '' '' = CHR '' ''"
  by (simp add: lower_char_def upper_letters_def lower_letters_def)

lemma tokenize_title_content:
  "tokenize (t @ '' '' @ c) = tokenize t @ tokenize c"
  by (simp add: tokenize_def lower_def lower_char_space findall_runs_sep is_token_char_def)

lemma tokenize_body_A: "tokenize ''alpha beta beta'' = [''alpha'', ''beta'', ''beta'']"
  by code_simp

lemma tokenize_beta: "tokenize ''beta'' = [''beta'']"
  by code_simp

lemma tokenize_indexed_text:
  "tokenize (indexed_text env r c) = tokenize (title_text env (title r)) @ tokenize c"
  by (simp only: indexed_text_def tokenize_title_content)

lemma count_of_Nil: "count_of [] t rid = 0"
  by (simp add: count_of_def)

lemma ranking_scenario:
  assumes a: "matches_id_pattern (resource_id A)" and b: "matches_id_pattern (resource_id B)"
    and ne: "resource_id A \<noteq> resource_id B"
    and tA: "''beta'' \<notin> set (tokenize (title_text env (title A)))"
    and tB: "''beta'' \<notin> set (tokenize (title_text env (title B)))"
  shows "search_local
           (index_resource env (index_resource env empty_indexer A ''alpha beta beta'') B ''beta'')
           ''beta'' 5 = Inr [resource_id A, resource_id B]"
proof -
  define ix where
    "ix = index_resource env (index_resource env empty_indexer A ''alpha beta beta'') B ''beta''"
  have ok: "index_ok ix"
    unfolding ix_def by (intro index_ok_index_resource index_ok_empty a b)
  have sc: "summed_count ix ''beta'' rid =
      (if rid = resource_id A then 2 else 0) + (if rid = resource_id B then 1 else 0)" for rid
    using tA tB
    by (simp add: summed_count_def tokenize_beta ix_def count_of_index_resource
          tokenize_indexed_text tokenize_body_A empty_indexer_def count_of_Nil)
  have pos: "{rid. 0 < summed_count ix ''beta'' rid} = {resource_id A, resource_id B}"
    by (auto simp: sc)
  from search_local_ranked_aux[OF ok, of "''beta''" 5]
  obtain res where res: "search_local ix ''beta'' 5 = Inr res" "distinct res"
    "length res = min (nat 5) (card {rid. 0 < summed_count ix ''beta'' rid})"
    "\<forall>rid \<in> set res. 0 < summed_count ix ''beta'' rid"
    "sorted_wrt (\<lambda>a b. a \<ge> b) (map (summed_count ix ''beta'') res)"
    by blast
  from res(3) ne have "length res = 2" by (simp add: pos)
  then obtain x y where xy: "res = [x, y]"
    by (metis (no_types, opaque_lifting) One_nat_def Suc_1 length_0_conv length_Suc_conv)
  from res(2,4,5) have "x = resource_id A \<and> y = resource_id B"
    unfolding xy using ne by (auto simp: sc split: if_splits)
  with res(1) xy show ?thesis by (simp add: ix_def)
qed


section \<open>Claims about the keyword index\<close>

text \<open>
  C1. \<open>search_local\<close> tokenizes the query with \<open>tokenize\<close>, the tokenizer
  \<open>index_resource\<close> uses, sums for each resource id the occurrence counts the index
  holds for the tokens of the query (\<open>summed_count\<close>), and returns the ids of the \<open>top_k\<close>
  highest positive sums in descending order: on an index that satisfies its invariant
  the call returns a list of distinct ids, as many as \<open>top_k\<close> allows among the ids with
  a positive sum, each with a positive sum, sorted by descending sum, and no id left
  out has a larger sum than an id returned. In particular, after indexing resource A
  with body "alpha beta beta" and resource B with body "beta" on an empty index, the
  titles holding no token "beta", the query "beta" returns A before B.
\<close>

theorem search_local_ranked:
  "(index_ok ix \<longrightarrow>
      (\<exists>res. search_local ix q k = Inr res
         \<and> distinct res
         \<and> length res = min (nat k) (card {rid. 0 < summed_count ix q rid})
         \<and> (\<forall>rid \<in> set res. 0 < summed_count ix q rid)
         \<and> sorted_wrt (\<lambda>a b. a \<ge> b) (map (summed_count ix q) res)
         \<and> (\<forall>rid \<in> set res. \<forall>rid'. rid' \<notin> set res \<longrightarrow>
               summed_count ix q rid' \<le> summed_count ix q rid)))
   \<and> (matches_id_pattern (resource_id A) \<and> matches_id_pattern (resource_id B)
        \<and> resource_id A \<noteq> resource_id B
        \<and> ''beta'' \<notin> set (tokenize (title_text env (title A)))
        \<and> ''beta'' \<notin> set (tokenize (title_text env (title B))) \<longrightarrow>
      search_local
        (index_resource env (index_resource env empty_indexer A ''alpha beta beta'') B ''beta'')
        ''beta'' 5 = Inr [resource_id A, resource_id B])"
  using search_local_ranked_aux[of ix q k] ranking_scenario[of A B env] by blast

theorem search_local_ranked_witness:
  "index_ok index_AB
   \<and> matches_id_pattern (resource_id resource_A) \<and> matches_id_pattern (resource_id resource_B)
   \<and> resource_id resource_A \<noteq> resource_id resource_B
   \<and> ''beta'' \<notin> set (tokenize (title_text stub_env (title resource_A)))
   \<and> ''beta'' \<notin> set (tokenize (title_text stub_env (title resource_B)))
   \<and> search_local index_AB ''beta'' 5 = Inr [''00000000000a'', ''00000000000b'']
   \<and> summed_count index_AB ''beta'' ''00000000000a'' = 2
   \<and> summed_count index_AB ''beta'' ''00000000000b'' = 1"
proof -
  have ids: "matches_id_pattern (resource_id resource_A)"
    "matches_id_pattern (resource_id resource_B)"
    "resource_id resource_A \<noteq> resource_id resource_B"
    by (simp_all add: resource_A_def resource_B_def matches_id_pattern_def is_hex_char_def)
  have titles: "''beta'' \<notin> set (tokenize (title_text stub_env (title resource_A)))"
    "''beta'' \<notin> set (tokenize (title_text stub_env (title resource_B)))"
    by (simp_all add: resource_A_def resource_B_def title_text_def) code_simp+
  have ok: "index_ok index_AB"
    unfolding index_AB_def by (intro index_ok_index_resource index_ok_empty ids)
  have "search_local index_AB ''beta'' 5 = Inr [resource_id resource_A, resource_id resource_B]"
    unfolding index_AB_def
    using search_local_ranked[of _ _ _ resource_A resource_B stub_env] ids titles by blast
  moreover have "summed_count index_AB ''beta'' rid =
      (if rid = ''00000000000a'' then 2 else 0) + (if rid = ''00000000000b'' then 1 else 0)" for rid
    using titles
    by (simp add: summed_count_def tokenize_beta index_AB_def count_of_index_resource
          tokenize_indexed_text tokenize_body_A empty_indexer_def count_of_Nil
          resource_A_def resource_B_def)
  ultimately show ?thesis
    using ok ids titles by (simp add: resource_A_def resource_B_def)
qed

text \<open>
  C9. \<open>index_resource\<close> accumulates: a call adds to the count the index holds for
  a token and the resource's id the number of times the token occurs in the tokens of
  title-plus-content, whatever the count was; two calls with the same arguments add that
  number twice; so for an id the index held no count for, every token has after two
  calls exactly twice the count it has after one.
\<close>

theorem index_resource_accumulates:
  "count_of (index (index_resource env ix r c)) t (resource_id r) =
     count_of (index ix) t (resource_id r) + int (count_list (tokenize (indexed_text env r c)) t)
   \<and> count_of (index (index_resource env (index_resource env ix r c) r c)) t (resource_id r) =
     count_of (index ix) t (resource_id r) + 2 * int (count_list (tokenize (indexed_text env r c)) t)
   \<and> (count_of (index ix) t (resource_id r) = 0 \<longrightarrow>
        count_of (index (index_resource env (index_resource env ix r c) r c)) t (resource_id r) =
        2 * count_of (index (index_resource env ix r c)) t (resource_id r))"
  by (simp add: count_of_index_resource)

theorem index_resource_accumulates_witness:
  "count_of (index (empty_indexer :: string indexer)) ''beta'' (resource_id resource_A) = 0
   \<and> count_of (index (index_resource stub_env empty_indexer resource_A ''alpha beta beta''))
        ''beta'' (resource_id resource_A) = 2
   \<and> count_of (index (index_resource stub_env
          (index_resource stub_env empty_indexer resource_A ''alpha beta beta'')
          resource_A ''alpha beta beta'')) ''beta'' (resource_id resource_A) = 4"
proof -
  have occ: "count_list (tokenize (indexed_text stub_env resource_A ''alpha beta beta'')) ''beta'' = 2"
  proof -
    have "''beta'' \<notin> set (tokenize ''Doc A'')" by code_simp
    then show ?thesis
      by (simp add: tokenize_indexed_text tokenize_body_A resource_A_def title_text_def)
  qed
  have zero: "count_of (index (empty_indexer :: string indexer)) ''beta'' (resource_id resource_A) = 0"
    by (simp add: empty_indexer_def count_of_Nil)
  show ?thesis
    using index_resource_accumulates[of stub_env empty_indexer resource_A "''alpha beta beta''" "''beta''"]
      occ zero by simp
qed

section \<open>Claims about identifiers and resources\<close>

lemma ResourceId_accepts:
  "ResourceId (PStr v) = Inr i \<longleftrightarrow> i = v \<and> matches_id_pattern v"
  by (auto simp: ResourceId_def)

lemma take12_hexdigest:
  "is_hexdigest s \<Longrightarrow> matches_id_pattern (take 12 s) \<and> length (take 12 s) = 12"
  by (auto simp: is_hexdigest_def matches_id_pattern_def list_all_iff dest: in_set_takeD)

text \<open>
  C5, as the code has it. \<open>from_url\<close> and \<open>from_content\<close> are functions of their input
  and give the first 12 characters of the SHA-256 hex digest, a 12-character
  lowercase-hex string; a value is accepted as a \<open>ResourceId\<close> exactly when it is
  a lowercase-hex string of 8 to 16 characters.
\<close>

theorem resource_id_format:
  "(is_hexdigest (sha256_hexdigest env s) \<longrightarrow>
      from_url env s = Inr (take 12 (sha256_hexdigest env s))
      \<and> from_content env s = Inr (take 12 (sha256_hexdigest env s))
      \<and> length (take 12 (sha256_hexdigest env s)) = 12
      \<and> list_all is_hex_char (take 12 (sha256_hexdigest env s)))
   \<and> (ResourceId (PStr v) = Inr i \<longleftrightarrow>
        i = v \<and> 8 \<le> length v \<and> length v \<le> 16 \<and> list_all is_hex_char v)"
  using take12_hexdigest[of "sha256_hexdigest env s"]
  by (auto simp: from_url_def from_content_def ResourceId_def matches_id_pattern_def)

theorem resource_id_format_witness:
  "is_hexdigest (sha256_hexdigest stub_env ''https://example.com/empty'')
   \<and> from_url stub_env ''https://example.com/empty'' = Inr ''cb735605a866''
   \<and> from_content stub_env ''https://example.com/empty'' = Inr ''cb735605a866''
   \<and> ResourceId (PStr ''cb735605a866'') = Inr ''cb735605a866''"
proof -
  have h: "is_hexdigest (sha256_hexdigest stub_env ''https://example.com/empty'')"
    by (simp add: stub_env_def stub_sha256_def is_hexdigest_def is_hex_char_def)
  have t: "take 12 (sha256_hexdigest stub_env ''https://example.com/empty'') = ''cb735605a866''"
    by (simp add: stub_env_def stub_sha256_def)
  show ?thesis
    using resource_id_format[of stub_env "''https://example.com/empty''" "''cb735605a866''" "''cb735605a866''"] h t
    by simp
qed

text \<open>
  C5 as stated fails in its last part: the pattern accepts every length from 8 to 16,
  so two valid ids can differ in length.
\<close>

theorem resource_id_lengths_differ:
  "ResourceId (PStr ''00000000'') = Inr ''00000000''
   \<and> ResourceId (PStr ''0000000000000000'') = Inr ''0000000000000000''
   \<and> length ''00000000'' \<noteq> length ''0000000000000000''"
  by (simp add: ResourceId_def matches_id_pattern_def is_hex_char_def)

lemma Url_accepts:
  "startswith u ''http://'' \<or> startswith u ''https://'' \<or> startswith u ''file://''
     \<Longrightarrow> Url (PStr u) = Inr u"
  by (simp add: Url_def)

lemma round_trip:
  assumes "well_formed r"
    and "fromisoformat env (isoformat env (captured_at r)) = Some (captured_at r)"
  shows "\<exists>d. to_dict env r = Inr d \<and> from_dict env d = Inr r"
proof -
  from assms(1) obtain h where h: "content_hash r = PStr h"
    by (auto simp: well_formed_def)
  have id: "ResourceId (PStr (resource_id r)) = Inr (resource_id r)"
    using assms(1) by (simp add: well_formed_def ResourceId_def)
  have u: "Url (PStr (url r)) = Inr (url r)"
    using assms(1) by (intro Url_accepts) (simp add: well_formed_def)
  have ts: "from_iso env (PStr (isoformat env (captured_at r))) = Inr (captured_at r)"
    using assms(2) by (simp add: from_iso_def)
  show ?thesis
    by (simp add: to_dict_def h from_dict_def subscript_def dict_get_def and_then_def id u ts)
qed



section \<open>Claims about title extraction\<close>

lemma scan_lines_skip:
  "\<forall>p \<in> set pre. \<not> is_heading p \<and> \<not> is_short_line p \<Longrightarrow>
     scan_lines (pre @ rest) = scan_lines rest"
  by (induction pre) (auto simp: is_heading_def is_short_line_def Let_def)

lemma scan_lines_hit:
  "is_heading l \<or> is_short_line l \<Longrightarrow>
     scan_lines (l # post) = Some (if is_heading l then heading_text l else strip l)"
  by (auto simp: is_heading_def is_short_line_def heading_text_def Let_def)

lemma scan_body_skip:
  "\<forall>p \<in> set pre. \<not> is_heading p \<and> \<not> (is_short_line p \<and> \<not> is_delimiter_line p) \<Longrightarrow>
     scan_body (pre @ rest) = scan_body rest"
  by (induction pre) (auto simp: is_heading_def is_short_line_def is_delimiter_line_def Let_def)

lemma scan_body_hit:
  "is_heading l \<or> (is_short_line l \<and> \<not> is_delimiter_line l) \<Longrightarrow>
     scan_body (l # post) = Some (if is_heading l then heading_text l else strip l)"
  by (auto simp: is_heading_def is_short_line_def is_delimiter_line_def heading_text_def Let_def)

lemma frontmatter_block_None:
  "\<not> has_frontmatter content \<Longrightarrow> frontmatter_block (split_on CHR 0x0A content) = None"
  by (auto simp: has_frontmatter_def frontmatter_block_def Let_def split: list.splits)

lemma title_without_frontmatter:
  assumes "\<not> has_frontmatter content"
    and "split_on CHR 0x0A content = pre @ l # post"
    and "\<forall>p \<in> set pre. \<not> is_heading p \<and> \<not> is_short_line p"
    and "is_heading l \<or> is_short_line l"
  shows "extract_title content fallback = PStr (if is_heading l then heading_text l else strip l)"
  using frontmatter_block_None[OF assms(1)] scan_lines_skip[OF assms(3), of "l # post"]
    scan_lines_hit[OF assms(4), of post] assms(2)
  by (simp add: extract_title_def title_from_content_def)

lemma title_after_frontmatter:
  assumes "split_on CHR 0x0A content = first # rest"
    and "strip first = ''---'' \<or> strip first = ''+++''"
    and "frontmatter_title (strip first) rest = None"
    and "after_frontmatter (strip first) rest = Some (pre @ l # post)"
    and "\<forall>p \<in> set pre. \<not> is_heading p \<and> \<not> (is_short_line p \<and> \<not> is_delimiter_line p)"
    and "is_heading l \<or> (is_short_line l \<and> \<not> is_delimiter_line l)"
  shows "extract_title content fallback = PStr (if is_heading l then heading_text l else strip l)"
  using assms(1-4) scan_body_skip[OF assms(5), of "l # post"] scan_body_hit[OF assms(6), of post]
  by (simp add: extract_title_def title_from_content_def frontmatter_block_def Let_def)

lemma heading_scenario:
  "extract_title (''# My Heading'' @ nl @ ''body'') fallback = PStr ''My Heading''"
proof -
  have "title_from_content (''# My Heading'' @ nl @ ''body'') = Some ''My Heading''"
    by code_simp
  then show ?thesis by (simp add: extract_title_def)
qed

text \<open>
  C7, as the code has it. The scanned region is read line by line, and the first line
  that is a level-1 heading or a non-empty line under 200 characters (in the body after
  a frontmatter block: one that does not start with \<open>---\<close> or \<open>+++\<close>) gives the
  title: the heading's text for a heading, the stripped line otherwise. So a level-1
  heading gives the title exactly when no non-empty line under 200 characters precedes
  it in the region. The content "# My Heading\nbody" yields "My Heading".
\<close>

theorem title_first_heading_or_short_line:
  "(\<not> has_frontmatter content
      \<and> split_on CHR 0x0A content = pre @ l # post
      \<and> (\<forall>p \<in> set pre. \<not> is_heading p \<and> \<not> is_short_line p)
      \<and> (is_heading l \<or> is_short_line l) \<longrightarrow>
    extract_title content fallback = PStr (if is_heading l then heading_text l else strip l))
   \<and> (split_on CHR 0x0A content' = first # rest
      \<and> (strip first = ''---'' \<or> strip first = ''+++'')
      \<and> frontmatter_title (strip first) rest = None
      \<and> after_frontmatter (strip first) rest = Some (pre' @ l' # post')
      \<and> (\<forall>p \<in> set pre'. \<not> is_heading p \<and> \<not> (is_short_line p \<and> \<not> is_delimiter_line p))
      \<and> (is_heading l' \<or> (is_short_line l' \<and> \<not> is_delimiter_line l')) \<longrightarrow>
    extract_title content' fallback = PStr (if is_heading l' then heading_text l' else strip l'))
   \<and> extract_title (''# My Heading'' @ nl @ ''body'') fallback = PStr ''My Heading''"
  using title_without_frontmatter[of content pre l post fallback]
    title_after_frontmatter[of content' first rest pre' l' post' fallback]
    heading_scenario[of fallback]
  by blast

theorem title_first_heading_or_short_line_witness:
  "\<not> has_frontmatter (nl @ ''# My Heading'' @ nl @ ''body'')
   \<and> split_on CHR 0x0A (nl @ ''# My Heading'' @ nl @ ''body'') = [[]] @ ''# My Heading'' # [''body'']
   \<and> \<not> is_heading [] \<and> \<not> is_short_line []
   \<and> is_heading ''# My Heading''
   \<and> extract_title (nl @ ''# My Heading'' @ nl @ ''body'') (PStr ''fallback'') = PStr ''My Heading''
   \<and> split_on CHR 0x0A (''---'' @ nl @ ''author: x'' @ nl @ ''---'' @ nl @ ''# Real Title'' @ nl @ ''text'')
       = ''---'' # [''author: x'', ''---'', ''# Real Title'', ''text'']
   \<and> frontmatter_title (strip ''---'') [''author: x'', ''---'', ''# Real Title'', ''text''] = None
   \<and> after_frontmatter (strip ''---'') [''author: x'', ''---'', ''# Real Title'', ''text'']
       = Some ([] @ ''# Real Title'' # [''text''])
   \<and> extract_title (''---'' @ nl @ ''author: x'' @ nl @ ''---'' @ nl @ ''# Real Title'' @ nl @ ''text'')
         (PStr ''fallback'') = PStr ''Real Title''"
proof -
  have a1: "\<not> has_frontmatter (nl @ ''# My Heading'' @ nl @ ''body'')" by code_simp
  have a2: "split_on CHR 0x0A (nl @ ''# My Heading'' @ nl @ ''body'') = [[]] @ ''# My Heading'' # [''body'']"
    by code_simp
  have a3: "\<forall>p \<in> set [[]]. \<not> is_heading p \<and> \<not> is_short_line p" by code_simp
  have a4: "is_heading ''# My Heading''" by code_simp
  have a5: "heading_text ''# My Heading'' = ''My Heading''" by code_simp
  have b1: "split_on CHR 0x0A (''---'' @ nl @ ''author: x'' @ nl @ ''---'' @ nl @ ''# Real Title'' @ nl @ ''text'')
       = ''---'' # [''author: x'', ''---'', ''# Real Title'', ''text'']" by code_simp
  have b2: "strip ''---'' = ''---''" by code_simp
  have b3: "frontmatter_title (strip ''---'') [''author: x'', ''---'', ''# Real Title'', ''text''] = None"
    by code_simp
  have b4: "after_frontmatter (strip ''---'') [''author: x'', ''---'', ''# Real Title'', ''text'']
       = Some ([] @ ''# Real Title'' # [''text''])" by code_simp
  have b5: "is_heading ''# Real Title''" by code_simp
  have b6: "heading_text ''# Real Title'' = ''Real Title''" by code_simp
  show ?thesis
    using title_first_heading_or_short_line[of "nl @ ''# My Heading'' @ nl @ ''body''"
        "[[]]" "''# My Heading''" "[''body'']" "PStr ''fallback''"
        "''---'' @ nl @ ''author: x'' @ nl @ ''---'' @ nl @ ''# Real Title'' @ nl @ ''text''"
        "''---''" "[''author: x'', ''---'', ''# Real Title'', ''text'']" "[]" "''# Real Title''" "[''text'']"]
      a1 a2 a3 a4 a5 b1 b2 b3 b4 b5 b6
    by simp
qed

text \<open>
  C7 as stated fails: a document with a level-1 heading below a short first line gets
  the first line as its title, not the heading.
\<close>

theorem heading_not_preferred:
  "is_heading ''# My Heading''
   \<and> \<not> has_frontmatter (''intro'' @ nl @ ''# My Heading'')
   \<and> extract_title (''intro'' @ nl @ ''# My Heading'') (PStr ''fallback'') = PStr ''intro''"
proof -
  have "title_from_content (''intro'' @ nl @ ''# My Heading'') = Some ''intro''"
    by code_simp
  moreover have "is_heading ''# My Heading''" by code_simp
  moreover have "\<not> has_frontmatter (''intro'' @ nl @ ''# My Heading'')" by code_simp
  ultimately show ?thesis by (simp add: extract_title_def)
qed

section \<open>Claims about ingest\<close>

lemma from_url_hexdigest:
  "is_hexdigest (sha256_hexdigest env s) \<Longrightarrow> from_url env s = Inr (take 12 (sha256_hexdigest env s))"
  using take12_hexdigest[of "sha256_hexdigest env s"] by (simp add: from_url_def ResourceId_def)

lemma from_content_hexdigest:
  "is_hexdigest (sha256_hexdigest env s) \<Longrightarrow>
     from_content env s = Inr (take 12 (sha256_hexdigest env s))"
  using take12_hexdigest[of "sha256_hexdigest env s"] by (simp add: from_content_def ResourceId_def)

text \<open>
  C4. For a URL whose id is not in the store and whose snapshot gives no text (none,
  empty, or only whitespace), \<open>execute\<close> raises the \<open>ValueError\<close> of empty content and
  leaves the store and the index as they were.
\<close>

theorem ingest_empty_content:
  assumes "startswith source ''http://'' \<or> startswith source ''https://''"
    and "is_hexdigest (sha256_hexdigest env source)"
    and "\<not> resource_exists (the_store lib) (take 12 (sha256_hexdigest env source))"
    and "strip (case fst (capture io source) of None \<Rightarrow> [] | Some t \<Rightarrow> t) = []"
  shows "ingest_execute env io lib source =
           (Inl (ValueError ''No content could be extracted from the source.''), lib)"
proof -
  have u: "Url (PStr source) = Inr source"
    using assms(1) by (intro Url_accepts) blast
  show ?thesis
    using assms
    by (simp add: ingest_execute_def from_url_hexdigest existing_resource_def u Let_def
          ingest_store_def)
qed

theorem ingest_empty_content_witness:
  "(startswith ''https://example.com/empty'' ''http://''
      \<or> startswith ''https://example.com/empty'' ''https://'')
   \<and> is_hexdigest (sha256_hexdigest stub_env ''https://example.com/empty'')
   \<and> \<not> resource_exists (the_store empty_library)
          (take 12 (sha256_hexdigest stub_env ''https://example.com/empty''))
   \<and> strip (case fst (capture stub_io ''https://example.com/empty'') of None \<Rightarrow> [] | Some t \<Rightarrow> t) = []
   \<and> ingest_execute stub_env stub_io empty_library ''https://example.com/empty'' =
        (Inl (ValueError ''No content could be extracted from the source.''), empty_library)"
proof -
  have a: "startswith ''https://example.com/empty'' ''http://''
      \<or> startswith ''https://example.com/empty'' ''https://''"
    by (simp add: startswith_def)
  have b: "is_hexdigest (sha256_hexdigest stub_env ''https://example.com/empty'')"
    by (simp add: stub_env_def stub_sha256_def is_hexdigest_def is_hex_char_def)
  have c: "\<not> resource_exists (the_store empty_library)
          (take 12 (sha256_hexdigest stub_env ''https://example.com/empty''))"
    by (simp add: resource_exists_def lookup_dir_def empty_library_def empty_store_def)
  have d: "strip (case fst (capture stub_io ''https://example.com/empty'') of
                    None \<Rightarrow> [] | Some t \<Rightarrow> t) = []"
    by (simp add: stub_io_def strip_def)
  from ingest_empty_content[OF a b c d] a b c d show ?thesis by simp
qed

lemma to_dict_str_hash: "content_hash r = PStr h \<Longrightarrow> \<exists>d. to_dict env r = Inr d"
  by (simp add: to_dict_def)

text \<open>
  What the local-file branch does: the title of the stored resource is the basename of
  the path, whatever the content holds.
\<close>

lemma ingest_local_title_is_basename:
  assumes "\<not> (startswith source ''http://'' \<or> startswith source ''https://'')"
    and "read_file io source = Some content"
    and "is_hexdigest (sha256_hexdigest env content)"
    and "\<not> resource_exists (the_store lib) (take 12 (sha256_hexdigest env content))"
    and "strip content \<noteq> []"
  shows "\<exists>resp lib'. ingest_execute env io lib source = (Inr resp, lib')
           \<and> title (resource resp) = PStr (basename source) \<and> \<not> already_existed resp"
proof -
  have u: "Url (PStr (''file://'' @ abspath io source)) = Inr (''file://'' @ abspath io source)"
    by (intro Url_accepts) (simp add: startswith_def)
  show ?thesis
    using assms
    by (simp add: ingest_execute_def from_content_hexdigest existing_resource_def u Let_def
          ingest_store_def save_resource_def to_dict_def ContentHash_of_def del: append.simps)
qed

text \<open>
  C2 at the input of its scenario: the file \<open>notes/hello.md\<close> holds the frontmatter
  document with \<open>title: Hello World\<close>. \<open>execute\<close> stores the resource under the title
  \<open>hello.md\<close>, the basename, although the title heuristic finds \<open>Hello World\<close> in the
  content.
\<close>

theorem ingest_local_file_ignores_frontmatter:
  "(case fst (ingest_execute stub_env stub_io empty_library ''notes/hello.md'') of
      Inl e \<Rightarrow> None
    | Inr resp \<Rightarrow> Some (title (resource resp), already_existed resp))
     = Some (PStr ''hello.md'', False)
   \<and> extract_title frontmatter_doc (PStr ''hello.md'') = PStr ''Hello World''"
proof -
  have a: "\<not> (startswith ''notes/hello.md'' ''http://'' \<or> startswith ''notes/hello.md'' ''https://'')"
    by (simp add: startswith_def)
  have b: "read_file stub_io ''notes/hello.md'' = Some frontmatter_doc"
    by (simp add: stub_io_def)
  have c: "is_hexdigest (sha256_hexdigest stub_env frontmatter_doc)"
    by (simp add: stub_env_def stub_sha256_def is_hexdigest_def is_hex_char_def)
  have d: "\<not> resource_exists (the_store empty_library)
             (take 12 (sha256_hexdigest stub_env frontmatter_doc))"
    by (simp add: resource_exists_def lookup_dir_def empty_library_def empty_store_def)
  have e: "strip frontmatter_doc \<noteq> []" by code_simp
  have f: "basename ''notes/hello.md'' = ''hello.md''" by code_simp
  have g: "title_from_content frontmatter_doc = Some ''Hello World''" by code_simp
  from ingest_local_title_is_basename[OF a b c d e] f g show ?thesis
    by (auto simp: extract_title_def)
qed

section \<open>Claims about index construction\<close>

lemma load_line_blank: "strip raw = [] \<Longrightarrow> load_line env st acc raw = Inr acc"
  by (simp add: load_line_def)

lemma load_line_caught:
  "parse_resource env (strip raw) = Inl e \<Longrightarrow> caught_by_load e \<Longrightarrow>
     load_line env st acc raw = Inr acc"
  by (simp add: load_line_def Let_def)

lemma load_line_fatal:
  "strip raw \<noteq> [] \<Longrightarrow> parse_resource env (strip raw) = Inl e \<Longrightarrow> \<not> caught_by_load e \<Longrightarrow>
     load_line env st acc raw = Inl e"
  by (simp add: load_line_def Let_def)

lemma load_line_seen:
  "parse_resource env (strip raw) = Inr r \<Longrightarrow> resource_id r \<in> set (fst acc) \<Longrightarrow>
     load_line env st acc raw = Inr acc"
  by (simp add: load_line_def Let_def)

lemma load_line_new:
  "strip raw \<noteq> [] \<Longrightarrow> parse_resource env (strip raw) = Inr r \<Longrightarrow>
   resource_id r \<notin> set (fst acc) \<Longrightarrow>
     load_line env st acc raw =
       Inr (resource_id r # fst acc,
            \<lparr>index = foldl (index_term (resource_id r)) (index (snd acc))
                       (tokenize (loaded_text env st r)),
             resources = AList.update (resource_id r) r (resources (snd acc))\<rparr>)"
  by (simp add: load_line_def Let_def loaded_text_def)

lemma load_line_cases:
  obtains (skip) "load_line env st acc raw = Inr acc"
  | (fatal) e where "fatal_line env raw" "load_line env st acc raw = Inl e"
  | (new) r where "strip raw \<noteq> []" "parse_resource env (strip raw) = Inr r"
      "resource_id r \<notin> set (fst acc)"
proof (cases "strip raw = []")
  case True
  then show ?thesis using skip load_line_blank by blast
next
  case False
  show ?thesis
  proof (cases "parse_resource env (strip raw)")
    case (Inl e)
    show ?thesis
    proof (cases "caught_by_load e")
      case True
      then show ?thesis using skip load_line_caught[OF Inl] by blast
    next
      case c: False
      then show ?thesis
        using fatal[of e] load_line_fatal[OF False Inl c] False Inl
        by (auto simp: fatal_line_def)
    qed
  next
    case (Inr r)
    then show ?thesis
      using skip new[of r] load_line_seen[OF Inr] False by blast
  qed
qed

lemma load_lines_append:
  "load_lines env st acc (xs @ ys) =
     and_then (load_lines env st acc xs) (\<lambda>acc'. load_lines env st acc' ys)"
  by (induction xs arbitrary: acc) (auto simp: and_then_def split: sum.splits)

lemma load_line_returns:
  "\<not> fatal_line env raw \<Longrightarrow> \<exists>acc'. load_line env st acc raw = Inr acc'"
  by (rule load_line_cases[of env st acc raw]) (auto simp: load_line_new)

lemma load_lines_return:
  "\<forall>l \<in> set ls. \<not> fatal_line env l \<Longrightarrow> \<exists>acc'. load_lines env st acc ls = Inr acc'"
proof (induction ls arbitrary: acc)
  case Nil
  then show ?case by simp
next
  case (Cons l ls)
  then obtain a where "load_line env st acc l = Inr a"
    using load_line_returns[of env l st acc] by auto
  then show ?case using Cons by (simp add: and_then_def)
qed

lemma load_line_inv:
  assumes "load_inv acc" and "load_line env st acc raw = Inr acc'"
  shows "load_inv acc'"
proof (rule load_line_cases[of env st acc raw])
  assume "load_line env st acc raw = Inr acc"
  with assms show ?thesis by simp
next
  fix e assume "load_line env st acc raw = Inl e"
  with assms show ?thesis by simp
next
  fix r
  assume n: "strip raw \<noteq> []" "parse_resource env (strip raw) = Inr r"
    "resource_id r \<notin> set (fst acc)"
  from load_line_new[OF n] assms(2) have acc': "acc' =
       (resource_id r # fst acc,
        \<lparr>index = foldl (index_term (resource_id r)) (index (snd acc))
                   (tokenize (loaded_text env st r)),
         resources = AList.update (resource_id r) r (resources (snd acc))\<rparr>)"
    by simp
  show ?thesis
    using assms(1) unfolding acc' load_inv_def
    by (auto simp: dom_update distinct_update count_of_foldl_index_term)
qed

lemma load_lines_inv:
  "load_inv acc \<Longrightarrow> load_lines env st acc ls = Inr acc' \<Longrightarrow> load_inv acc'"
proof (induction ls arbitrary: acc)
  case Nil
  then show ?case by simp
next
  case (Cons l ls)
  from Cons.prems(2) obtain a where a: "load_line env st acc l = Inr a"
    "load_lines env st a ls = Inr acc'"
    by (auto simp: and_then_def split: sum.splits)
  from Cons.IH[OF load_line_inv[OF Cons.prems(1) a(1)] a(2)] show ?case .
qed

text \<open>Once an id is seen, no later line changes its record or its counts.\<close>

lemma load_line_frame:
  assumes "load_line env st acc raw = Inr acc'" and "rid \<in> set (fst acc)"
  shows "rid \<in> set (fst acc')
       \<and> map_of (resources (snd acc')) rid = map_of (resources (snd acc)) rid
       \<and> count_of (index (snd acc')) t rid = count_of (index (snd acc)) t rid"
proof (rule load_line_cases[of env st acc raw])
  assume "load_line env st acc raw = Inr acc"
  with assms show ?thesis by simp
next
  fix e assume "load_line env st acc raw = Inl e"
  with assms show ?thesis by simp
next
  fix r
  assume n: "strip raw \<noteq> []" "parse_resource env (strip raw) = Inr r"
    "resource_id r \<notin> set (fst acc)"
  from load_line_new[OF n] assms(1) have acc': "acc' =
       (resource_id r # fst acc,
        \<lparr>index = foldl (index_term (resource_id r)) (index (snd acc))
                   (tokenize (loaded_text env st r)),
         resources = AList.update (resource_id r) r (resources (snd acc))\<rparr>)"
    by simp
  from n(3) assms(2) have "resource_id r \<noteq> rid" by auto
  then show ?thesis
    using assms(2) unfolding acc'
    by (simp add: update_conv' count_of_foldl_index_term)
qed

lemma load_lines_frame:
  "load_lines env st acc ls = Inr acc' \<Longrightarrow> rid \<in> set (fst acc) \<Longrightarrow>
     rid \<in> set (fst acc')
     \<and> map_of (resources (snd acc')) rid = map_of (resources (snd acc)) rid
     \<and> count_of (index (snd acc')) t rid = count_of (index (snd acc)) t rid"
proof (induction ls arbitrary: acc)
  case Nil
  then show ?case by simp
next
  case (Cons l ls)
  from Cons.prems(1) obtain a where a: "load_line env st acc l = Inr a"
    "load_lines env st a ls = Inr acc'"
    by (auto simp: and_then_def split: sum.splits)
  from load_line_frame[OF a(1) Cons.prems(2), of t] Cons.IH[OF a(2), of ] show ?case
    by simp
qed

lemma load_line_unseen:
  assumes "load_line env st acc raw = Inr acc'" and "rid \<notin> set (fst acc)"
    and "\<not> bears_id env raw rid"
  shows "rid \<notin> set (fst acc')"
proof (rule load_line_cases[of env st acc raw])
  assume "load_line env st acc raw = Inr acc"
  with assms show ?thesis by simp
next
  fix e assume "load_line env st acc raw = Inl e"
  with assms show ?thesis by simp
next
  fix r
  assume n: "strip raw \<noteq> []" "parse_resource env (strip raw) = Inr r"
    "resource_id r \<notin> set (fst acc)"
  from n(1,2) assms(3) have "resource_id r \<noteq> rid" by (auto simp: bears_id_def)
  with load_line_new[OF n] assms(1,2) show ?thesis by auto
qed

lemma load_lines_unseen:
  "load_lines env st acc ls = Inr acc' \<Longrightarrow> rid \<notin> set (fst acc) \<Longrightarrow>
   \<forall>l \<in> set ls. \<not> bears_id env l rid \<Longrightarrow> rid \<notin> set (fst acc')"
proof (induction ls arbitrary: acc)
  case Nil
  then show ?case by simp
next
  case (Cons l ls)
  from Cons.prems(1) obtain a where a: "load_line env st acc l = Inr a"
    "load_lines env st a ls = Inr acc'"
    by (auto simp: and_then_def split: sum.splits)
  have "rid \<notin> set (fst a)"
    using load_line_unseen[OF a(1) Cons.prems(2)] Cons.prems(3) by simp
  from Cons.IH[OF a(2) this] Cons.prems(3) show ?case by simp
qed

lemma load_inv_start: "load_inv ([], empty_indexer)"
  by (simp add: load_inv_def empty_indexer_def count_of_Nil)

lemma once_in_table:
  "distinct (map fst al) \<Longrightarrow> map_of al k = Some v \<Longrightarrow>
     length (filter (\<lambda>e. fst e = k) al) = 1"
proof (induction al)
  case Nil
  then show ?case by simp
next
  case (Cons e al)
  show ?case
  proof (cases "fst e = k")
    case True
    with Cons.prems(1) have "filter (\<lambda>e. fst e = k) al = []"
      by (auto simp: filter_empty_conv intro: rev_image_eqI)
    with True show ?thesis by simp
  next
    case False
    with Cons show ?thesis by (cases e) auto
  qed
qed

text \<open>
  C3. In a ledger where a line parses into a record \<open>r1\<close>, no earlier line bears the
  id of \<open>r1\<close> and a later line bears it again, construction (which completes when no
  line is fatal) gives the index it gives for the ledger without the later line: the
  resource table holds the id once, with the record \<open>r1\<close> of the first line, and the
  count of every token for the id is the number of its occurrences in the text indexed
  for \<open>r1\<close>.
\<close>

theorem load_first_occurrence_wins:
  assumes first: "strip l1 \<noteq> []" "parse_resource env (strip l1) = Inr r1"
    and dup: "bears_id env l2 (resource_id r1)"
    and before: "\<forall>l \<in> set pre. \<not> bears_id env l (resource_id r1)"
    and no_fatal: "\<forall>l \<in> set (pre @ l1 # mid @ l2 # post). \<not> fatal_line env l"
    and ledger: "library_jsonl st = Some (pre @ l1 # mid @ l2 # post)"
  shows "\<exists>ix. load env st = Inr ix
           \<and> load env (st\<lparr>library_jsonl := Some (pre @ l1 # mid @ post)\<rparr>) = Inr ix
           \<and> map_of (resources ix) (resource_id r1) = Some r1
           \<and> length (filter (\<lambda>e. fst e = resource_id r1) (resources ix)) = 1
           \<and> (\<forall>t. count_of (index ix) t (resource_id r1) =
                  int (count_list (tokenize (loaded_text env st r1)) t))"
proof -
  define rid where "rid = resource_id r1"
  define st' where "st' = st\<lparr>library_jsonl := Some (pre @ l1 # mid @ post)\<rparr>"
  have same_store: "load_lines env st' acc ls = load_lines env st acc ls" for acc ls
  proof (induction ls arbitrary: acc)
    case Nil
    show ?case by simp
  next
    case (Cons l ls)
    have "load_content st' = load_content st"
      by (rule ext) (simp add: st'_def load_content_def lookup_dir_def)
    then have "load_line env st' acc l = load_line env st acc l"
      unfolding load_line_def by (simp only:)
    with Cons show ?case by simp
  qed
  have nf: "\<forall>l \<in> set pre. \<not> fatal_line env l" "\<forall>l \<in> set mid. \<not> fatal_line env l"
    "\<forall>l \<in> set post. \<not> fatal_line env l"
    using no_fatal by auto
  obtain a1 where a1: "load_lines env st ([], empty_indexer) pre = Inr a1"
    using load_lines_return[OF nf(1), of st "([], empty_indexer)"] by blast
  have inv1: "load_inv a1" by (rule load_lines_inv[OF load_inv_start a1])
  have unseen1: "rid \<notin> set (fst a1)"
    using load_lines_unseen[OF a1, of rid] before by (simp add: rid_def)
  define a2 where "a2 =
       (rid # fst a1,
        \<lparr>index = foldl (index_term rid) (index (snd a1)) (tokenize (loaded_text env st r1)),
         resources = AList.update rid r1 (resources (snd a1))\<rparr>)"
  have a2: "load_line env st a1 l1 = Inr a2"
    using load_line_new[OF first, of a1 st] unseen1 by (simp add: a2_def rid_def)
  have inv2: "load_inv a2" by (rule load_line_inv[OF inv1 a2])
  have seen2: "rid \<in> set (fst a2)" by (simp add: a2_def)
  have rec2: "map_of (resources (snd a2)) rid = Some r1"
    by (simp add: a2_def update_conv')
  have cnt2: "count_of (index (snd a2)) t rid = int (count_list (tokenize (loaded_text env st r1)) t)"
    for t using inv1 unseen1 by (simp add: a2_def count_of_foldl_index_term load_inv_def)
  obtain a3 where a3: "load_lines env st a2 mid = Inr a3"
    using load_lines_return[OF nf(2), of st a2] by blast
  note f3 = load_lines_frame[OF a3 seen2]
  from dup obtain r2 where r2: "parse_resource env (strip l2) = Inr r2" "resource_id r2 = rid"
    by (auto simp: bears_id_def rid_def)
  have l2: "load_line env st a3 l2 = Inr a3"
    using load_line_seen[OF r2(1), of a3 st] f3 r2(2) by simp
  obtain a4 where a4: "load_lines env st a3 post = Inr a4"
    using load_lines_return[OF nf(3), of st a3] by blast
  have seen3: "rid \<in> set (fst a3)" using f3 by simp
  note f4 = load_lines_frame[OF a4 seen3]
  have inv4: "load_inv a4"
    by (rule load_lines_inv[OF load_lines_inv[OF inv2 a3] a4])
  have full: "load_lines env st ([], empty_indexer) (pre @ l1 # mid @ l2 # post) = Inr a4"
    by (simp add: load_lines_append a1 a2 a3 l2 a4 and_then_def)
  have without: "load_lines env st ([], empty_indexer) (pre @ l1 # mid @ post) = Inr a4"
    by (simp add: load_lines_append a1 a2 a3 a4 and_then_def)
  have rec4: "map_of (resources (snd a4)) rid = Some r1"
    using f4 f3 rec2 by simp
  have cnt4: "count_of (index (snd a4)) t rid = int (count_list (tokenize (loaded_text env st r1)) t)"
    for t using load_lines_frame[OF a4 seen3, of t] load_lines_frame[OF a3 seen2, of t] cnt2[of t]
    by simp
  have once: "length (filter (\<lambda>e. fst e = rid) (resources (snd a4))) = 1"
    using inv4 rec4 by (intro once_in_table) (simp_all add: load_inv_def)
  have "load env st = Inr (snd a4)"
    by (simp add: load_def ledger full and_then_def)
  moreover have "load env st' = Inr (snd a4)"
    by (simp add: load_def st'_def same_store[unfolded st'_def] without and_then_def)
  ultimately show ?thesis
    using rec4 once cnt4 unfolding rid_def st'_def by blast
qed

lemma parse_line_A: "parse_resource stub_env ''line-A'' = Inr resource_A"
  by (simp add: parse_resource_def stub_env_def stub_json_loads_def dict_of_def from_dict_def
        subscript_def dict_get_def and_then_def ResourceId_def Url_def from_iso_def
        resource_A_def matches_id_pattern_def is_hex_char_def startswith_def stub_time_def)

lemma parse_line_A2:
  "parse_resource stub_env ''line-A2'' = Inr (resource_A\<lparr>title := PStr ''Other beta beta''\<rparr>)"
  by (simp add: parse_resource_def stub_env_def stub_json_loads_def dict_of_def from_dict_def
        subscript_def dict_get_def and_then_def ResourceId_def Url_def from_iso_def
        resource_A_def matches_id_pattern_def is_hex_char_def startswith_def stub_time_def)

lemma parse_line_B: "parse_resource stub_env ''line-B'' = Inr resource_B"
  by (simp add: parse_resource_def stub_env_def stub_json_loads_def dict_of_def from_dict_def
        subscript_def dict_get_def and_then_def ResourceId_def Url_def from_iso_def
        resource_B_def matches_id_pattern_def is_hex_char_def startswith_def stub_time_def)

lemma parse_not_json: "parse_resource stub_env ''not json'' = Inl JSONDecodeError"
  by (simp add: parse_resource_def stub_env_def stub_json_loads_def)

lemma strip_examples:
  "strip ''line-A'' = ''line-A''" "strip ''line-A2'' = ''line-A2''" "strip ''line-B'' = ''line-B''"
  "strip ''not json'' = ''not json''" "strip ''  '' = []" "strip ''[]'' = ''[]''"
  by code_simp+

theorem load_first_occurrence_wins_witness:
  "strip ''line-A'' \<noteq> [] \<and> parse_resource stub_env (strip ''line-A'') = Inr resource_A
   \<and> bears_id stub_env ''line-A2'' (resource_id resource_A)
   \<and> \<not> fatal_line stub_env ''line-A'' \<and> \<not> fatal_line stub_env ''not json''
   \<and> \<not> fatal_line stub_env ''line-B'' \<and> \<not> fatal_line stub_env ''line-A2''
   \<and> \<not> fatal_line stub_env ''  ''
   \<and> (\<exists>ix. load stub_env ledger_store = Inr ix
          \<and> load stub_env (ledger_store\<lparr>library_jsonl :=
                Some ([] @ ''line-A'' # [''not json'', ''line-B''] @ [''  ''])\<rparr>) = Inr ix
          \<and> map_of (resources ix) ''00000000000a'' = Some resource_A
          \<and> length (filter (\<lambda>e. fst e = ''00000000000a'') (resources ix)) = 1
          \<and> count_of (index ix) ''beta'' ''00000000000a'' = 2)"
proof -
  have first: "strip ''line-A'' \<noteq> []" "parse_resource stub_env (strip ''line-A'') = Inr resource_A"
    by (simp_all add: strip_examples parse_line_A)
  have dup: "bears_id stub_env ''line-A2'' (resource_id resource_A)"
    by (simp add: bears_id_def strip_examples parse_line_A2)
  have nf: "\<not> fatal_line stub_env ''line-A''" "\<not> fatal_line stub_env ''not json''"
    "\<not> fatal_line stub_env ''line-B''" "\<not> fatal_line stub_env ''line-A2''"
    "\<not> fatal_line stub_env ''  ''"
    by (simp_all add: fatal_line_def strip_examples parse_line_A parse_line_A2 parse_line_B
          parse_not_json)
  have all: "\<forall>l \<in> set ([] @ ''line-A'' # [''not json'', ''line-B''] @ ''line-A2'' # [''  '']).
               \<not> fatal_line stub_env l"
    using nf by simp
  have ledger: "library_jsonl ledger_store =
      Some ([] @ ''line-A'' # [''not json'', ''line-B''] @ ''line-A2'' # [''  ''])"
    by (simp add: ledger_store_def)
  have occ: "count_list (tokenize (loaded_text stub_env ledger_store resource_A)) ''beta'' = 2"
  proof -
    have "loaded_text stub_env ledger_store resource_A = ''Doc A alpha beta beta''"
      by (simp add: loaded_text_def indexed_text_def title_text_def resource_A_def
            load_content_def lookup_dir_def ledger_store_def)
    moreover have "count_list (tokenize ''Doc A alpha beta beta'') ''beta'' = 2" by code_simp
    ultimately show ?thesis by simp
  qed
  have rid: "resource_id resource_A = ''00000000000a''" by (simp add: resource_A_def)
  from load_first_occurrence_wins[OF first dup _ all ledger] occ first dup nf
  show ?thesis unfolding rid by auto
qed

text \<open>
  What \<open>_load\<close> skips: a blank line, a line that is not JSON, and a line whose JSON
  object lacks a key or holds a string that is no valid id, URL or timestamp. The next
  lines are read as if the skipped line were not there.
\<close>

lemma load_lines_skip_blank:
  "strip raw = [] \<Longrightarrow> load_lines env st acc (raw # rest) = load_lines env st acc rest"
  by (simp add: load_line_blank and_then_def)

lemma load_lines_skip_not_json:
  "json_loads env (strip raw) = None \<Longrightarrow>
     load_lines env st acc (raw # rest) = load_lines env st acc rest"
  by (simp add: load_line_def parse_resource_def and_then_def Let_def)

lemma load_lines_skip_caught:
  "parse_resource env (strip raw) = Inl e \<Longrightarrow> caught_by_load e \<Longrightarrow>
     load_lines env st acc (raw # rest) = load_lines env st acc rest"
  by (simp add: load_line_caught and_then_def)

lemma from_dict_missing_id:
  "map_of kvs ''id'' = None \<Longrightarrow> from_dict env (PDict kvs) = Inl (KeyError ''id'')"
  by (simp add: from_dict_def subscript_def and_then_def)

lemma from_dict_invalid_id:
  "map_of kvs ''id'' = Some (PStr s) \<Longrightarrow> \<not> matches_id_pattern s \<Longrightarrow>
     from_dict env (PDict kvs) = Inl (ValueError ''Invalid ResourceId'')"
  by (simp add: from_dict_def subscript_def and_then_def ResourceId_def)

text \<open>
  What \<open>_load\<close> does not skip: a line whose JSON value is not an object makes
  \<open>from_dict\<close> raise \<open>TypeError\<close>, which the \<open>except\<close> clause does not name, so
  construction ends there and no later line is read.
\<close>

lemma from_dict_non_object:
  "\<forall>kvs. v \<noteq> PDict kvs \<Longrightarrow> from_dict env v = Inl TypeError"
  by (cases v) (simp_all add: from_dict_def subscript_def and_then_def)

lemma load_lines_non_object_fatal:
  assumes "strip raw \<noteq> []" and "json_loads env (strip raw) = Some v" and "\<forall>kvs. v \<noteq> PDict kvs"
  shows "load_lines env st acc (raw # rest) = Inl TypeError"
  using assms from_dict_non_object[OF assms(3), of env]
  by (simp add: load_line_def parse_resource_def and_then_def Let_def)

text \<open>
  C10 at a failing input: the ledger holds the line \<open>[]\<close> (valid JSON, not a resource
  record) and then the record of resource A. Construction raises \<open>TypeError\<close>; with
  the first line blank instead, it completes and loads A.
\<close>

theorem load_aborts_on_json_array:
  "load stub_env array_ledger_store = Inl TypeError
   \<and> (\<exists>ix. load stub_env (array_ledger_store\<lparr>library_jsonl := Some [''  '', ''line-A'']\<rparr>) = Inr ix
          \<and> map_of (resources ix) ''00000000000a'' = Some resource_A)"
proof -
  have j: "json_loads stub_env (strip ''[]'') = Some (PList [])"
    by (simp add: strip_examples stub_env_def stub_json_loads_def)
  have s: "strip ''[]'' \<noteq> []" by (simp add: strip_examples)
  have n: "\<forall>kvs. PList [] \<noteq> PDict kvs" by simp
  have "load_lines stub_env array_ledger_store ([], empty_indexer) [''[]'', ''line-A''] = Inl TypeError"
    by (rule load_lines_non_object_fatal[OF s j n])
  then have a: "load stub_env array_ledger_store = Inl TypeError"
    by (simp add: load_def array_ledger_store_def and_then_def)
  have "load_line stub_env st ([], empty_indexer) ''line-A'' =
          Inr ([''00000000000a''],
               \<lparr>index = foldl (index_term ''00000000000a'') [] (tokenize (loaded_text stub_env st resource_A)),
                resources = [(''00000000000a'', resource_A)]\<rparr>)" for st
    using load_line_new[of "''line-A''" stub_env resource_A "([], empty_indexer)" st]
    by (simp add: strip_examples parse_line_A resource_A_def empty_indexer_def)
  then have b: "\<exists>ix. load stub_env (array_ledger_store\<lparr>library_jsonl := Some [''  '', ''line-A'']\<rparr>) = Inr ix
          \<and> map_of (resources ix) ''00000000000a'' = Some resource_A"
    by (simp add: load_def load_line_blank strip_examples and_then_def)
  from a b show ?thesis by simp
qed

section \<open>Claims about reindex\<close>

lemma lookup_update_dir:
  "lookup_dir (update_dir st n f) k =
     (if k = n then Some (f (case lookup_dir st n of None \<Rightarrow> empty_resdir | Some d \<Rightarrow> d))
      else lookup_dir st k)"
  by (auto simp: lookup_dir_def update_dir_def Let_def update_conv' split: option.splits)

lemma dir_names_update_dir:
  "meta_of st n = Some m \<Longrightarrow> dir_names (update_dir st n f) = dir_names st"
proof -
  assume "meta_of st n = Some m"
  then obtain ds d where ds: "resource_dirs st = Some ds" "map_of ds n = Some d"
    by (auto simp: meta_of_def lookup_dir_def split: option.splits)
  then have "n \<in> fst ` set ds" by (metis map_of_eq_None_iff option.distinct(1))
  then show ?thesis
    using ds by (simp add: dir_names_def update_dir_def Let_def update_keys)
qed

lemma resource_dirs_update_dir: "resource_dirs (update_dir st n f) \<noteq> None"
  by (simp add: update_dir_def Let_def)

lemma meta_of_cong: "lookup_dir st' n = lookup_dir st n \<Longrightarrow> meta_of st' n = meta_of st n"
  by (simp add: meta_of_def)

lemma content_of_cong: "lookup_dir st' n = lookup_dir st n \<Longrightarrow> content_of st' n = content_of st n"
  by (simp add: content_of_def load_content_def)

lemma stored_ok_cong:
  assumes "lookup_dir st' n = lookup_dir st n"
  shows "stored_ok env st' n = stored_ok env st n"
  unfolding stored_ok_def meta_of_cong[OF assms] content_of_cong[OF assms] by (rule refl)

lemma stable_dir_cong:
  assumes "lookup_dir st' n = lookup_dir st n"
  shows "stable_dir env st' n = stable_dir env st n"
  unfolding stable_dir_def meta_of_cong[OF assms] content_of_cong[OF assms] by (rule refl)

lemma snapshot_cong:
  "\<forall>n \<in> set names. lookup_dir st' n = lookup_dir st n \<Longrightarrow>
     snapshot env st' names = snapshot env st names"
proof (induction names)
  case Nil
  show ?case by simp
next
  case (Cons h names)
  then have h: "lookup_dir st' h = lookup_dir st h"
    and IH: "snapshot env st' names = snapshot env st names" by simp_all
  show ?case
    unfolding snapshot.simps meta_of_cong[OF h] content_of_cong[OF h] IH by (rule refl)
qed

text \<open>A title the heuristic found is found again, whatever the fallback.\<close>

lemma extract_title_changed:
  "extract_title c fb \<noteq> fb \<Longrightarrow> \<exists>t. title_from_content c = Some t \<and> extract_title c fb = PStr t"
  by (auto simp: extract_title_def split: option.splits)

lemma extract_title_found:
  "title_from_content c = Some t \<Longrightarrow> extract_title c fb = PStr t"
  by (simp add: extract_title_def)

lemma retitled_simps:
  "title (retitled r t) = t" "content_hash (retitled r t) = content_hash r"
  "retitled (retitled r t) t = retitled r t"
  by (simp_all add: retitled_def)

lemma log_info: "log_call ''info'' = Inr ()"
  by (simp add: log_call_def logger_methods_def)

lemma log_warning: "log_call ''warning'' = Inl AttributeError"
  by (simp add: log_call_def logger_methods_def)

text \<open>The \<open>try\<close> block touches no directory but its own.\<close>

lemma reindex_try_frame:
  "reindex_try env st n m = (x, st') \<Longrightarrow> k \<noteq> n \<Longrightarrow> lookup_dir st' k = lookup_dir st k"
  by (auto simp: reindex_try_def Let_def lookup_update_dir log_info
        split: sum.splits if_splits)

text \<open>On a stable directory the \<open>try\<close> block changes nothing.\<close>

lemma reindex_try_stable:
  assumes "stable_dir env st n" and "meta_of st n = Some m"
  shows "\<exists>r. parse_resource env m = Inr r
           \<and> reindex_try env st n m = (Inr (r, content_of st n, False), st)"
  using assms by (auto simp: stable_dir_def reindex_try_def Let_def)

text \<open>On a directory of a stored library the \<open>try\<close> block succeeds and leaves it stable.\<close>

lemma reindex_try_ok:
  assumes ok: "stored_ok env st n" and m: "meta_of st n = Some m"
  shows "\<exists>r fixed st'. reindex_try env st n m = (Inr (r, content_of st n, fixed), st')
           \<and> stable_dir env st' n \<and> stored_ok env st' n
           \<and> (\<exists>m'. meta_of st' n = Some m' \<and> parse_resource env m' = Inr r)
           \<and> content_of st' n = content_of st n
           \<and> dir_names st' = dir_names st
           \<and> (resource_dirs st \<noteq> None \<longrightarrow> resource_dirs st' \<noteq> None)"
proof -
  define c where "c = content_of st n"
  from ok m obtain r0 h where r0: "parse_resource env m = Inr r0" "content_hash r0 = PStr h"
    and rb: "\<forall>t. title_from_content c = Some t \<longrightarrow> reads_back env (retitled r0 (PStr t))"
    by (auto simp: stored_ok_def c_def)
  show ?thesis
  proof (cases "extract_title c (title r0) = title r0")
    case True
    then have "reindex_try env st n m = (Inr (r0, c, False), st)"
      using r0 by (simp add: reindex_try_def Let_def c_def)
    moreover have "stable_dir env st n"
      using m r0 True by (auto simp: stable_dir_def c_def)
    ultimately show ?thesis
      using ok m r0 unfolding c_def by blast
  next
    case False
    then obtain t where t: "title_from_content c = Some t" "extract_title c (title r0) = PStr t"
      using extract_title_changed by blast
    define r where "r = retitled r0 (PStr t)"
    obtain d where d: "to_dict env r = Inr d"
      using to_dict_str_hash[of r h env] r0(2) by (auto simp: r_def retitled_simps)
    define st' where
      "st' = update_dir st n (\<lambda>x. x\<lparr>meta_json := Some (json_dumps_indent env d)\<rparr>)"
    have run: "reindex_try env st n m = (Inr (r, c, True), st')"
      using r0 False t d
      by (simp add: reindex_try_def Let_def c_def[symmetric] r_def[symmetric] st'_def log_info)
    have rdback: "parse_resource env (json_dumps_indent env d) = Inr r"
      using rb t(1) d by (auto simp: reads_back_def r_def)
    from m obtain dir where dir: "lookup_dir st n = Some dir"
      by (auto simp: meta_of_def split: option.splits)
    have look: "lookup_dir st' n = Some (dir\<lparr>meta_json := Some (json_dumps_indent env d)\<rparr>)"
      by (simp add: st'_def lookup_update_dir dir)
    have meta': "meta_of st' n = Some (json_dumps_indent env d)"
      by (simp add: meta_of_def look)
    have content': "content_of st' n = c"
      by (simp add: content_of_def load_content_def look c_def dir)
    have title': "extract_title c (title r) = title r"
      using t(1) by (simp add: r_def retitled_simps extract_title_found)
    have hash': "content_hash r = PStr h"
      using r0(2) by (simp add: r_def retitled_simps)
    have stable: "stable_dir env st' n"
      using meta' rdback content' title' hash' by (auto simp: stable_dir_def)
    have ok': "stored_ok env st' n"
    proof -
      have "reads_back env (retitled r (PStr t'))" if "title_from_content c = Some t'" for t'
        using that t(1) rb by (simp add: r_def retitled_simps)
      then show ?thesis
        using meta' rdback content' hash' by (auto simp: stored_ok_def)
    qed
    have names: "dir_names st' = dir_names st"
      unfolding st'_def by (rule dir_names_update_dir[OF m])
    have "resource_dirs st' \<noteq> None"
      unfolding st'_def by (rule resource_dirs_update_dir)
    with run stable ok' meta' rdback content' names show ?thesis
      unfolding c_def by blast
  qed
qed

text \<open>A walk that completes leaves every stable directory as it was.\<close>

lemma reindex_walk_keeps_stable:
  "reindex_walk env st res acc names = (Inr out, st') \<Longrightarrow> stable_dir env st n \<Longrightarrow>
     lookup_dir st' n = lookup_dir st n"
proof (induction names arbitrary: st res acc)
  case Nil
  then show ?case by simp
next
  case (Cons h names)
  show ?case
  proof (cases "meta_of st h")
    case None
    with Cons.prems(1) have "reindex_walk env st res acc names = (Inr out, st')" by simp
    from Cons.IH[OF this Cons.prems(2)] show ?thesis .
  next
    case (Some m)
    obtain x st1 where x: "reindex_try env st h m = (x, st1)" by force
    show ?thesis
    proof (cases x)
      case (Inl e)
      with Cons.prems(1) Some x show ?thesis by (simp add: log_warning)
    next
      case (Inr y)
      obtain r c fixed where y: "y = (r, c, fixed)" by (cases y) auto
      from Cons.prems(1) Some x Inr y obtain res1 where
        rest: "reindex_walk env st1 res1 (acc @ [(r, c)]) names = (Inr out, st')"
        by (auto simp: Let_def split: if_splits)
      have same: "lookup_dir st1 n = lookup_dir st n"
      proof (cases "n = h")
        case True
        from reindex_try_stable[OF Cons.prems(2)[unfolded True] Some] x show ?thesis by auto
      next
        case False
        from reindex_try_frame[OF x False] show ?thesis .
      qed
      then have "stable_dir env st1 n"
        using Cons.prems(2) stable_dir_cong[of st1 n st env] by simp
      from Cons.IH[OF rest this] same show ?thesis by simp
    qed
  qed
qed

text \<open>
  The first run: on a stored library the walk completes, leaves every directory it
  visited stable, and has collected what the directories hold afterwards.
\<close>

lemma reindex_walk_first:
  "\<forall>n. stored_ok env st n \<Longrightarrow>
     \<exists>res' st'. reindex_walk env st res acc names = (Inr (res', acc @ snapshot env st' names), st')
        \<and> (\<forall>n \<in> set names. stable_dir env st' n) \<and> (\<forall>n. stored_ok env st' n)
        \<and> dir_names st' = dir_names st
        \<and> (resource_dirs st \<noteq> None \<longrightarrow> resource_dirs st' \<noteq> None)"
proof (induction names arbitrary: st res acc)
  case Nil
  then show ?case by simp
next
  case (Cons h names)
  show ?case
  proof (cases "meta_of st h")
    case None
    from Cons.IH[OF Cons.prems, of res acc] obtain res' st' where
      w: "reindex_walk env st res acc names = (Inr (res', acc @ snapshot env st' names), st')"
      and st: "\<forall>n \<in> set names. stable_dir env st' n" "\<forall>n. stored_ok env st' n"
        "dir_names st' = dir_names st" "resource_dirs st \<noteq> None \<longrightarrow> resource_dirs st' \<noteq> None"
      by blast
    have "stable_dir env st h" using None by (simp add: stable_dir_def)
    from reindex_walk_keeps_stable[OF w this] have same: "lookup_dir st' h = lookup_dir st h" .
    then have none': "meta_of st' h = None" using None meta_of_cong[of st' h st] by simp
    then have "stable_dir env st' h" by (simp add: stable_dir_def)
    with w st none' None show ?thesis by auto
  next
    case (Some m)
    from reindex_try_ok[OF Cons.prems[rule_format, of h] Some] obtain r fixed st1 m' where
      t: "reindex_try env st h m = (Inr (r, content_of st h, fixed), st1)"
      and st1: "stable_dir env st1 h" "stored_ok env st1 h"
        "meta_of st1 h = Some m'" "parse_resource env m' = Inr r"
        "content_of st1 h = content_of st h" "dir_names st1 = dir_names st"
        "resource_dirs st \<noteq> None \<longrightarrow> resource_dirs st1 \<noteq> None"
      by blast
    have ok1: "\<forall>n. stored_ok env st1 n"
    proof
      fix n
      show "stored_ok env st1 n"
      proof (cases "n = h")
        case True
        then show ?thesis using st1(2) by simp
      next
        case False
        from stored_ok_cong[OF reindex_try_frame[OF t False], of env] Cons.prems show ?thesis
          by simp
      qed
    qed
    define res1 where "res1 = (if fixed
        then (res\<lparr>total := total res + 1\<rparr>)\<lparr>titles_fixed := titles_fixed (res\<lparr>total := total res + 1\<rparr>) + 1\<rparr>
        else res\<lparr>total := total res + 1\<rparr>)"
    from Cons.IH[OF ok1, of res1 "acc @ [(r, content_of st h)]"] obtain res' st' where
      w: "reindex_walk env st1 res1 (acc @ [(r, content_of st h)]) names =
            (Inr (res', (acc @ [(r, content_of st h)]) @ snapshot env st' names), st')"
      and st: "\<forall>n \<in> set names. stable_dir env st' n" "\<forall>n. stored_ok env st' n"
        "dir_names st' = dir_names st1" "resource_dirs st1 \<noteq> None \<longrightarrow> resource_dirs st' \<noteq> None"
      by blast
    from reindex_walk_keeps_stable[OF w st1(1)] have same: "lookup_dir st' h = lookup_dir st1 h" .
    have snap: "snapshot env st' (h # names) = (r, content_of st h) # snapshot env st' names"
      unfolding snapshot.simps meta_of_cong[OF same] content_of_cong[OF same] st1(3,5)
      by (simp add: st1(4))
    have "stable_dir env st' h" using st1(1) stable_dir_cong[OF same, of env] by simp
    moreover have "reindex_walk env st res acc (h # names) =
        (Inr (res', acc @ snapshot env st' (h # names)), st')"
      unfolding snap using Some t w by (simp add: Let_def res1_def)
    ultimately show ?thesis
      using st st1(6,7) by auto
  qed
qed

text \<open>
  The second run: on stable directories the walk completes, fixes no title, changes no
  file and collects what the directories hold.
\<close>

lemma reindex_walk_second:
  "\<forall>n \<in> set names. stable_dir env st n \<Longrightarrow>
     \<exists>res'. reindex_walk env st res acc names = (Inr (res', acc @ snapshot env st names), st)
        \<and> titles_fixed res' = titles_fixed res"
proof (induction names arbitrary: res acc)
  case Nil
  then show ?case by simp
next
  case (Cons h names)
  show ?case
  proof (cases "meta_of st h")
    case None
    with Cons show ?thesis by simp
  next
    case (Some m)
    from reindex_try_stable[OF _ Some] Cons.prems obtain r where
      r: "parse_resource env m = Inr r"
        "reindex_try env st h m = (Inr (r, content_of st h, False), st)"
      by auto
    from Cons.IH[of "res\<lparr>total := total res + 1\<rparr>" "acc @ [(r, content_of st h)]"] Cons.prems
    obtain res' where
      "reindex_walk env st (res\<lparr>total := total res + 1\<rparr>) (acc @ [(r, content_of st h)]) names =
         (Inr (res', (acc @ [(r, content_of st h)]) @ snapshot env st names), st)"
      "titles_fixed res' = titles_fixed (res\<lparr>total := total res + 1\<rparr>)"
      by auto
    then show ?thesis
      using Some r by (simp add: Let_def)
  qed
qed

lemma snapshot_hashes:
  "\<forall>n \<in> set names. stable_dir env st n \<Longrightarrow>
     \<forall>rc \<in> set (snapshot env st names). \<exists>h. content_hash (fst rc) = PStr h"
  by (induction names) (auto simp: stable_dir_def split: option.splits sum.splits)

lemma write_ledger_ok:
  "\<forall>rc \<in> set rcs. \<exists>h. content_hash (fst rc) = PStr h \<Longrightarrow>
     \<exists>lines. write_ledger env written rcs = (Inr (), lines)"
proof (induction rcs arbitrary: written)
  case Nil
  then show ?case by simp
next
  case (Cons rc rcs)
  then obtain h where "content_hash (fst rc) = PStr h" by auto
  then obtain d where d: "to_dict env (fst rc) = Inr d"
    using to_dict_str_hash by blast
  from Cons.IH[of "written @ [json_dumps env d]"] Cons.prems d show ?case by simp
qed

lemma from_dict_valid:
  assumes "from_dict env d = Inr r"
  shows "matches_id_pattern (resource_id r)
       \<and> (startswith (url r) ''http://'' \<or> startswith (url r) ''https://''
            \<or> startswith (url r) ''file://'')"
proof -
  from assms obtain i u where
    i: "and_then (subscript d ''id'') ResourceId = Inr i"
    and u: "and_then (subscript d ''url'') Url = Inr u"
    and r: "resource_id r = i" "url r = u"
    unfolding from_dict_def and_then_def by (auto split: sum.splits)
  from i have "matches_id_pattern i"
    by (auto simp: and_then_def ResourceId_def split: sum.splits pyval.splits if_splits)
  moreover from u have "startswith u ''http://'' \<or> startswith u ''https://'' \<or> startswith u ''file://''"
    by (auto simp: and_then_def Url_def split: sum.splits pyval.splits if_splits)
  ultimately show ?thesis using r by simp
qed

text \<open>
  Where \<open>json.load\<close> inverts \<open>json.dump\<close> and \<open>fromisoformat\<close> inverts \<open>isoformat\<close>,
  every record loaded from a metadata file reads back under any new title.
\<close>

lemma reads_back_from_round_trips:
  assumes js: "\<forall>v. json_loads env (json_dumps_indent env v) = Some v"
    and iso: "\<forall>t. fromisoformat env (isoformat env t) = Some t"
    and m: "parse_resource env m = Inr r"
  shows "reads_back env (retitled r new_title)"
  unfolding reads_back_def
proof (intro allI impI)
  fix d
  assume d: "to_dict env (retitled r new_title) = Inr d"
  from m obtain data where "from_dict env data = Inr r"
    by (auto simp: parse_resource_def split: option.splits)
  from from_dict_valid[OF this] d have "well_formed (retitled r new_title)"
    by (auto simp: well_formed_def retitled_def to_dict_def split: pyval.splits)
  from round_trip[OF this, of env] iso d
  have "from_dict env d = Inr (retitled r new_title)" by auto
  then show "parse_resource env (json_dumps_indent env d) = Inr (retitled r new_title)"
    using js by (simp add: parse_resource_def)
qed

lemma stable_dir_absent: "lookup_dir st n = None \<Longrightarrow> stable_dir env st n"
  by (simp add: stable_dir_def meta_of_def)

lemma reindex_twice:
  assumes ok: "\<forall>n. stored_ok env (the_store lib) n"
  shows "\<exists>res1 lib1 res2 lib2. reindex_execute env lib = (Inr res1, lib1)
           \<and> (\<forall>n. stable_dir env (the_store lib1) n)
           \<and> reindex_execute env lib1 = (Inr res2, lib2) \<and> titles_fixed res2 = 0"
proof (cases "resource_dirs (the_store lib)")
  case None
  then have "reindex_execute env lib = (Inr new_result, lib)"
    by (simp add: reindex_execute_def)
  moreover have "stable_dir env (the_store lib) n" for n
    using None by (intro stable_dir_absent) (simp add: lookup_dir_def)
  ultimately show ?thesis by (auto simp: new_result_def)
next
  case (Some ds)
  define st where "st = the_store lib"
  define names where "names = sort (map fst ds)"
  from reindex_walk_first[OF ok, of new_result "[]" names] obtain res1 st1 where
    w1: "reindex_walk env st new_result [] names = (Inr (res1, snapshot env st1 names), st1)"
    and p1: "\<forall>n \<in> set names. stable_dir env st1 n" "dir_names st1 = dir_names st"
      "resource_dirs st \<noteq> None \<longrightarrow> resource_dirs st1 \<noteq> None"
    unfolding st_def by auto
  from write_ledger_ok[OF snapshot_hashes[OF p1(1)], where written = "[]"] obtain lines1 where
    l1: "write_ledger env [] (snapshot env st1 names) = (Inr (), lines1)" by blast
  define st2 where "st2 = st1\<lparr>library_jsonl := Some lines1\<rparr>"
  define lib1 where
    "lib1 = \<lparr>the_store = st2, the_indexer = rebuild_index env (snapshot env st1 names)\<rparr>"
  have run1: "reindex_execute env lib = (Inr res1, lib1)"
    using Some w1 l1
    by (simp add: reindex_execute_def st_def[symmetric] names_def[symmetric] log_info
          lib1_def st2_def)
  have look: "lookup_dir st2 n = lookup_dir st1 n" for n
    by (simp add: st2_def lookup_dir_def)
  from p1(3) Some obtain ds1 where ds1: "resource_dirs st1 = Some ds1"
    by (auto simp: st_def)
  have "map fst ds1 = map fst ds"
    using p1(2) ds1 Some by (simp add: dir_names_def st_def)
  then have names2: "sort (map fst ds1) = names" by (simp add: names_def)
  have dirs2: "resource_dirs (the_store lib1) = Some ds1"
    by (simp add: lib1_def st2_def ds1)
  have stable2: "\<forall>n \<in> set names. stable_dir env st2 n"
    using p1(1) stable_dir_cong[OF look, of env] by simp
  from reindex_walk_second[OF stable2, of new_result "[]"] obtain res2 where
    w2: "reindex_walk env st2 new_result [] names = (Inr (res2, snapshot env st2 names), st2)"
    and f2: "titles_fixed res2 = titles_fixed new_result"
    by auto
  from write_ledger_ok[OF snapshot_hashes[OF stable2], where written = "[]"] obtain lines2 where
    l2: "write_ledger env [] (snapshot env st2 names) = (Inr (), lines2)" by blast
  have all_stable: "stable_dir env (the_store lib1) n" for n
  proof (cases "n \<in> set names")
    case True
    with stable2 show ?thesis by (simp add: lib1_def)
  next
    case False
    have "set names = set (map fst ds1)" using names2[symmetric] by simp
    with False have "n \<notin> fst ` set ds1" by simp
    then have "lookup_dir st1 n = None"
      by (simp add: lookup_dir_def ds1 map_of_eq_None_iff)
    then have "lookup_dir st2 n = None" using look[of n] by simp
    then show ?thesis by (simp add: lib1_def stable_dir_absent)
  qed
  have "\<exists>lib2. reindex_execute env lib1 = (Inr res2, lib2)"
    using dirs2 w2 l2
    by (simp add: reindex_execute_def names2 log_info lib1_def)
  moreover have "titles_fixed res2 = 0" using f2 by (simp add: new_result_def)
  ultimately show ?thesis using run1 all_stable by blast
qed

text \<open>
  With the two round trips of the standard library, a store is a stored library as soon
  as every \<open>meta.json\<close> in it holds a resource record with a string content hash.
\<close>

lemma stored_ok_from_round_trips:
  assumes "\<forall>v. json_loads env (json_dumps_indent env v) = Some v"
    and "\<forall>t. fromisoformat env (isoformat env t) = Some t"
    and "\<forall>n m. meta_of st n = Some m \<longrightarrow>
           (\<exists>r h. parse_resource env m = Inr r \<and> content_hash r = PStr h)"
  shows "stored_ok env st n"
proof (cases "meta_of st n")
  case None
  then show ?thesis by (simp add: stored_ok_def)
next
  case (Some m)
  with assms(3) obtain r h where r: "parse_resource env m = Inr r" "content_hash r = PStr h"
    by blast
  from reads_back_from_round_trips[OF assms(1,2) r(1)] r Some show ?thesis
    by (auto simp: stored_ok_def)
qed

text \<open>
  C6. On a stored library (every \<open>meta.json\<close> holds a resource record with a string
  content hash, and what \<open>Reindex\<close> writes reads back as written) the first run of
  \<open>execute\<close> completes and leaves in every directory the title that the title
  heuristic gives for its content; the second run on that state completes too and
  reports \<open>titles_fixed = 0\<close>.
\<close>

theorem reindex_twice_fixes_nothing:
  assumes "\<forall>n. stored_ok env (the_store lib) n"
  shows "\<exists>res1 lib1 res2 lib2. reindex_execute env lib = (Inr res1, lib1)
           \<and> (\<forall>n. stable_dir env (the_store lib1) n)
           \<and> reindex_execute env lib1 = (Inr res2, lib2) \<and> titles_fixed res2 = 0"
  using assms by (rule reindex_twice)

lemma parse_line_A_retitled:
  "parse_resource stub_env ''line-A-retitled'' = Inr resource_A_retitled"
  by (simp add: parse_resource_def stub_env_def stub_json_loads_def dict_of_def from_dict_def
        subscript_def dict_get_def and_then_def ResourceId_def Url_def from_iso_def
        resource_A_def resource_A_retitled_def matches_id_pattern_def is_hex_char_def
        startswith_def stub_time_def)

theorem reindex_twice_fixes_nothing_witness:
  "(\<forall>n. stored_ok stub_env (the_store reindex_library) n)
   \<and> (\<exists>lib1 lib2.
         reindex_execute stub_env reindex_library =
           (Inr \<lparr>total = 1, titles_fixed = 1, errors = []\<rparr>, lib1)
         \<and> meta_of (the_store lib1) ''00000000000a'' = Some ''line-A-retitled''
         \<and> reindex_execute stub_env lib1 = (Inr \<lparr>total = 1, titles_fixed = 0, errors = []\<rparr>, lib2))"
proof -
  have t: "title_from_content ''# Real Title'' = Some ''Real Title''" by code_simp
  have rt: "retitled resource_A (PStr ''Real Title'') = resource_A_retitled"
    by (simp add: retitled_def resource_A_retitled_def resource_A_def)
  have td: "to_dict stub_env resource_A_retitled = Inr (dict_of resource_A_retitled)"
    by (simp add: to_dict_def dict_of_def resource_A_retitled_def resource_A_def stub_env_def)
  have dump: "json_dumps_indent stub_env (dict_of resource_A_retitled) = ''line-A-retitled''"
    by (simp add: stub_env_def)
  have rb: "reads_back stub_env resource_A_retitled"
    by (simp add: reads_back_def td dump parse_line_A_retitled)
  have h: "content_hash resource_A = PStr ''aa''" by (simp add: resource_A_def)
  have ok: "stored_ok stub_env (the_store reindex_library) n" for n
    by (auto simp: stored_ok_def meta_of_def content_of_def load_content_def lookup_dir_def
          reindex_library_def parse_line_A t rt rb h)
  define st1 where "st1 = update_dir (the_store reindex_library) ''00000000000a''
                            (\<lambda>x. x\<lparr>meta_json := Some ''line-A-retitled''\<rparr>)"
  have m0: "meta_of (the_store reindex_library) ''00000000000a'' = Some ''line-A''"
    and c0: "content_of (the_store reindex_library) ''00000000000a'' = ''# Real Title''"
    by (simp_all add: meta_of_def content_of_def load_content_def lookup_dir_def
          reindex_library_def)
  have ne: "extract_title ''# Real Title'' (title resource_A) \<noteq> title resource_A"
    by (simp add: extract_title_def t resource_A_def)
  have try1: "reindex_try stub_env (the_store reindex_library) ''00000000000a'' ''line-A'' =
                (Inr (resource_A_retitled, ''# Real Title'', True), st1)"
    using ne by (simp add: reindex_try_def parse_line_A c0 Let_def extract_title_def t rt td
          dump log_info st1_def)
  have m1: "meta_of st1 ''00000000000a'' = Some ''line-A-retitled''"
    and c1: "content_of st1 ''00000000000a'' = ''# Real Title''"
    by (simp_all add: st1_def meta_of_def content_of_def load_content_def update_dir_def
          Let_def lookup_dir_def reindex_library_def)
  have walk1: "reindex_walk stub_env (the_store reindex_library) new_result [] [''00000000000a''] =
      (Inr (\<lparr>total = 1, titles_fixed = 1, errors = []\<rparr>,
            [(resource_A_retitled, ''# Real Title'')]), st1)"
    by (simp add: m0 try1 Let_def new_result_def)
  have jd: "json_dumps stub_env v = ''line''" for v by (simp add: stub_env_def)
  define lines where "lines = [''line'']"
  have lines: "write_ledger stub_env [] [(resource_A_retitled, ''# Real Title'')] = (Inr (), lines)"
    by (simp add: td jd lines_def)
  define lib1 where "lib1 = \<lparr>the_store = st1\<lparr>library_jsonl := Some lines\<rparr>,
      the_indexer = rebuild_index stub_env [(resource_A_retitled, ''# Real Title'')]\<rparr>"
  have dirs: "resource_dirs (the_store reindex_library) = Some [(''00000000000a'',
                       \<lparr>meta_json = Some ''line-A'', content_md = Some ''# Real Title'',
                        snippets_json = None, snapshot_html = None\<rparr>)]"
    by (simp add: reindex_library_def)
  have run1: "reindex_execute stub_env reindex_library =
      (Inr \<lparr>total = 1, titles_fixed = 1, errors = []\<rparr>, lib1)"
    by (simp add: reindex_execute_def dirs walk1 lines log_info lib1_def
          del: reindex_walk.simps write_ledger.simps)
  have meta1: "meta_of (the_store lib1) ''00000000000a'' = Some ''line-A-retitled''"
    using m1 by (simp add: lib1_def meta_of_def lookup_dir_def)
  from reindex_twice_fixes_nothing[of stub_env reindex_library] ok run1
  obtain res2 lib2 where r2: "reindex_execute stub_env lib1 = (Inr res2, lib2)"
    "titles_fixed res2 = 0" by auto
  have st2: "the_store lib1 = st1\<lparr>library_jsonl := Some lines\<rparr>" by (simp add: lib1_def)
  have m2: "meta_of (st1\<lparr>library_jsonl := Some lines\<rparr>) ''00000000000a'' = Some ''line-A-retitled''"
    and c2: "content_of (st1\<lparr>library_jsonl := Some lines\<rparr>) ''00000000000a'' = ''# Real Title''"
    using m1 c1 by (simp_all add: meta_of_def content_of_def load_content_def lookup_dir_def)
  have same: "extract_title ''# Real Title'' (title resource_A_retitled) = title resource_A_retitled"
    by (simp add: extract_title_def t resource_A_retitled_def)
  have try2: "reindex_try stub_env (st1\<lparr>library_jsonl := Some lines\<rparr>) ''00000000000a'' ''line-A-retitled'' =
                (Inr (resource_A_retitled, ''# Real Title'', False), st1\<lparr>library_jsonl := Some lines\<rparr>)"
    using same by (simp add: reindex_try_def parse_line_A_retitled c2 Let_def)
  have dirs1: "resource_dirs (st1\<lparr>library_jsonl := Some lines\<rparr>) = Some [(''00000000000a'',
                       \<lparr>meta_json = Some ''line-A-retitled'', content_md = Some ''# Real Title'',
                        snippets_json = None, snapshot_html = None\<rparr>)]"
    by (simp add: st1_def update_dir_def reindex_library_def Let_def)
  have "fst (reindex_execute stub_env lib1) = Inr \<lparr>total = 1, titles_fixed = 0, errors = []\<rparr>"
    by (simp add: reindex_execute_def st2 dirs1 m2 try2 Let_def new_result_def lines log_info
          del: write_ledger.simps)
  with r2 have "reindex_execute stub_env lib1 =
      (Inr \<lparr>total = 1, titles_fixed = 0, errors = []\<rparr>, lib2)" by simp
  with ok run1 meta1 show ?thesis by blast
qed

text \<open>
  Outside a stored library: when the metadata of a directory does not load, the
  \<open>except\<close> clause of \<open>execute\<close> calls \<open>self._log.warning\<close>, a method the logger does not
  have, and the run ends with \<open>AttributeError\<close> instead of a result.
\<close>

lemma reindex_unreadable_metadata_raises:
  "reindex_execute stub_env broken_library = (Inl AttributeError, broken_library)"
proof -
  have "parse_resource stub_env ''{'' = Inl JSONDecodeError"
    by (simp add: parse_resource_def stub_env_def stub_json_loads_def)
  then show ?thesis
    by (simp add: reindex_execute_def broken_library_def meta_of_def lookup_dir_def
          reindex_try_def log_warning)
qed

text \<open>
  The index that construction returns satisfies the invariant of the index, so the
  ranking of \<open>search_local\<close> holds on it.
\<close>

lemma load_line_index_ok:
  assumes "index_ok (snd acc)" and "load_line env st acc raw = Inr acc'"
  shows "index_ok (snd acc')"
proof (rule load_line_cases[of env st acc raw])
  assume "load_line env st acc raw = Inr acc"
  with assms show ?thesis by simp
next
  fix e assume "load_line env st acc raw = Inl e"
  with assms show ?thesis by simp
next
  fix r
  assume n: "strip raw \<noteq> []" "parse_resource env (strip raw) = Inr r"
    "resource_id r \<notin> set (fst acc)"
  from n(2) obtain data where "from_dict env data = Inr r"
    by (auto simp: parse_resource_def split: option.splits)
  from from_dict_valid[OF this] have v: "matches_id_pattern (resource_id r)" by simp
  from load_line_new[OF n] assms(2) have "index (snd acc') =
      foldl (index_term (resource_id r)) (index (snd acc)) (tokenize (loaded_text env st r))"
    by auto
  with foldl_index_term_ok[OF assms(1)[unfolded index_ok_def] v] show ?thesis
    by (simp add: index_ok_def)
qed

lemma load_lines_index_ok:
  "index_ok (snd acc) \<Longrightarrow> load_lines env st acc ls = Inr acc' \<Longrightarrow> index_ok (snd acc')"
proof (induction ls arbitrary: acc)
  case Nil
  then show ?case by simp
next
  case (Cons l ls)
  from Cons.prems(2) obtain a where a: "load_line env st acc l = Inr a"
    "load_lines env st a ls = Inr acc'"
    by (auto simp: and_then_def split: sum.splits)
  from Cons.IH[OF load_line_index_ok[OF Cons.prems(1) a(1)] a(2)] show ?case .
qed

lemma index_ok_load: "load env st = Inr ix \<Longrightarrow> index_ok ix"
proof -
  assume l: "load env st = Inr ix"
  show ?thesis
  proof (cases "library_jsonl st")
    case None
    with l show ?thesis by (simp add: load_def index_ok_empty)
  next
    case (Some lines)
    with l obtain acc where "load_lines env st ([], empty_indexer) lines = Inr acc" "ix = snd acc"
      by (auto simp: load_def and_then_def split: sum.splits)
    with load_lines_index_ok[of "([], empty_indexer)" env st lines acc] show ?thesis
      by (simp add: index_ok_empty)
  qed
qed

section \<open>The round trip of a resource through its dict\<close>

lemma length_pad: "length (pad k n) = k"
  by (induction k arbitrary: n) simp_all

lemma digit_of_digit_char: "digit_of (digit_char n) = Some (n mod 10)"
proof -
  have "n mod 10 < 10" by simp
  then have "n mod 10 = 0 \<or> n mod 10 = 1 \<or> n mod 10 = 2 \<or> n mod 10 = 3 \<or> n mod 10 = 4
      \<or> n mod 10 = 5 \<or> n mod 10 = 6 \<or> n mod 10 = 7 \<or> n mod 10 = 8 \<or> n mod 10 = 9"
    by arith
  then show ?thesis
    unfolding digit_char_def digit_of_def by (elim disjE) simp_all
qed

lemma read_digits_append:
  "read_digits acc (xs @ ys) = (case read_digits acc xs of None \<Rightarrow> None | Some a \<Rightarrow> read_digits a ys)"
  by (induction xs arbitrary: acc) (simp_all split: option.splits)

lemma read_digits_pad:
  "read_digits acc (pad k n) = Some (acc * 10 ^ k + n mod 10 ^ k)"
proof (induction k arbitrary: n acc)
  case 0
  show ?case by simp
next
  case (Suc k)
  have "n mod (10 * 10 ^ k) = 10 * (n div 10 mod 10 ^ k) + n mod 10"
    by (rule mod_mult2_eq)
  then show ?case
    by (simp add: read_digits_append Suc digit_of_digit_char algebra_simps)
qed

lemma read_number_pad: "n < 10 ^ k \<Longrightarrow> read_number k (pad k n) = Some n"
  by (simp add: read_number_def length_pad read_digits_pad)

lemma pad_no_sign: "c \<in> set (pad k n) \<Longrightarrow> \<not> is_sign c"
proof (induction k arbitrary: n)
  case 0
  then show ?case by simp
next
  case (Suc k)
  have "digit_of (digit_char n) \<noteq> None" by (simp add: digit_of_digit_char)
  then have "\<not> is_sign (digit_char n)"
    by (auto simp: is_sign_def digit_of_def)
  with Suc show ?case by auto
qed
lemma parse_hh_mm:
  assumes "hh < 100" "mm < 100"
  shows "parse_hh_mm_ss_ff (pad 2 hh @ '':'' @ pad 2 mm) = Some (hh, mm, 0, 0)"
  using assms by (simp add: parse_hh_mm_ss_ff_def length_pad read_number_pad)

lemma parse_hh_mm_ss:
  assumes "hh < 100" "mm < 100" "ss < 100"
  shows "parse_hh_mm_ss_ff (pad 2 hh @ '':'' @ pad 2 mm @ '':'' @ pad 2 ss) = Some (hh, mm, ss, 0)"
  using assms by (simp add: parse_hh_mm_ss_ff_def length_pad read_number_pad)

lemma parse_hh_mm_ss_us:
  assumes "hh < 100" "mm < 100" "ss < 100" "us < 1000000"
  shows "parse_hh_mm_ss_ff (pad 2 hh @ '':'' @ pad 2 mm @ '':'' @ pad 2 ss @ ''.'' @ pad 6 us)
           = Some (hh, mm, ss, us)"
  using assms by (simp add: parse_hh_mm_ss_ff_def length_pad read_number_pad)

lemma parse_format_time:
  assumes "hh < 100" "mm < 100" "ss < 100" "us < 1000000"
  shows "parse_hh_mm_ss_ff (format_time hh mm ss us) = Some (hh, mm, ss, us)"
  using parse_hh_mm_ss[OF assms(1-3)] parse_hh_mm_ss_us[OF assms]
  by (simp add: format_time_def)

lemma format_time_no_sign: "c \<in> set (format_time hh mm ss us) \<Longrightarrow> \<not> is_sign c"
  by (auto simp: format_time_def is_sign_def dest: pad_no_sign split: if_splits)

lemma offset_fields:
  fixes a :: nat
  defines "hh \<equiv> a div 3600000000" and "r \<equiv> a mod 3600000000"
  defines "mm \<equiv> r div 60000000" and "r' \<equiv> r mod 60000000"
  defines "ss \<equiv> r' div 1000000" and "us \<equiv> r' mod 1000000"
  assumes "a < 86400000000"
  shows "hh < 100" "mm < 60" "ss < 60" "us < 1000000"
    "((hh * 60 + mm) * 60 + ss) * 1000000 + us = a"
proof -
  have "a < 100 * 3600000000" using assms by simp
  then show "hh < 100" unfolding hh_def by (rule less_mult_imp_div_less)
  have "r < 60 * 60000000" by (simp add: r_def)
  then show "mm < 60" unfolding mm_def by (rule less_mult_imp_div_less)
  have "r' < 60 * 1000000" by (simp add: r'_def)
  then show "ss < 60" unfolding ss_def by (rule less_mult_imp_div_less)
  show "us < 1000000" by (simp add: us_def)
  have 1: "a = hh * 3600000000 + r"
    by (simp add: hh_def r_def)
  have 2: "r = mm * 60000000 + r'"
    by (simp add: mm_def r'_def)
  have 3: "r' = ss * 1000000 + us"
    by (simp add: ss_def us_def)
  show "((hh * 60 + mm) * 60 + ss) * 1000000 + us = a"
    by (subst 1, subst 2, subst 3) (simp add: algebra_simps)
qed

lemma parse_format_offset:
  assumes "offset_ok n"
  shows "parse_offset (format_offset (Some n)) = Some (Some (Timezone n))"
proof -
  define a where "a = nat \<bar>n\<bar>"
  define hh where "hh = a div 3600000000"
  define r where "r = a mod 3600000000"
  define mm where "mm = r div 60000000"
  define r' where "r' = r mod 60000000"
  define ss where "ss = r' div 1000000"
  define us where "us = r' mod 1000000"
  have a: "a < 86400000000"
    using assms unfolding offset_ok_def day_micros_def a_def by arith
  note f = offset_fields[OF a, folded hh_def r_def mm_def r'_def ss_def us_def]
  have tot: "int (((hh * 60 + mm) * 60 + ss) * 1000000 + us) = \<bar>n\<bar>"
    using f(5) by (simp add: a_def)
  define body where "body = pad 2 hh @ '':'' @ pad 2 mm
                 @ (if ss \<noteq> 0 \<or> us \<noteq> 0
                    then '':'' @ pad 2 ss @ (if us \<noteq> 0 then ''.'' @ pad 6 us else [])
                    else [])"
  have fo: "format_offset (Some n) = (if n < 0 then CHR ''-'' else CHR ''+'') # body"
    by (simp add: format_offset_def Let_def a_def hh_def r_def mm_def r'_def ss_def us_def
          body_def)
  have mm: "mm < 100" and ss: "ss < 100" using f(2,3) by simp_all
  have p: "parse_hh_mm_ss_ff body = Some (hh, mm, ss, us)"
    unfolding body_def
    using parse_hh_mm[OF f(1) mm] parse_hh_mm_ss[OF f(1) mm ss]
      parse_hh_mm_ss_us[OF f(1) mm ss f(4)]
    by (cases "us = 0"; cases "ss = 0") simp_all
  have lt: "\<bar>n\<bar> < day_micros"
    using assms unfolding offset_ok_def by arith
  show ?thesis
    unfolding fo parse_offset_def
    using f(2,3) lt tot by (simp add: p Let_def del: of_nat_add of_nat_mult)
qed

lemma format_offset_sign:
  "format_offset (Some n) \<noteq> [] \<and> is_sign (hd (format_offset (Some n)))"
  by (simp add: format_offset_def Let_def is_sign_def)


end
